theory Spec2Isabelle
  imports Complex_Main
begin

section \<open>Numeric vectors (craam/definitions.hpp)\<close>

text \<open>
  The precision type \<open>prec_t\<close> is \<open>double\<close>; it is modelled by the reals, so every
  statement below is about exact arithmetic.  \<open>numvec\<close> is a \<open>std::vector\<close> of numbers and
  \<open>numvecvec\<close> a vector of such vectors (ragged: rows may differ in length).
\<close>

type_synonym prec_t = real
type_synonym numvec = "prec_t list"
type_synonym numvecvec = "numvec list"

definition EPSILON :: prec_t where
  "EPSILON = 1 / 1000000"

text \<open>
  \<open>is_probability_dist(first, last)\<close>: an empty range is rejected; the running sum starts
  with the first element, and the loop that tests \<open>*first < 0\<close> starts with the second.
\<close>

fun is_probability_dist_loop :: "prec_t \<Rightarrow> numvec \<Rightarrow> bool" where
  "is_probability_dist_loop s [] = (\<bar>s - 1\<bar> < EPSILON)"
| "is_probability_dist_loop s (x # xs) =
     (if x < 0 then False else is_probability_dist_loop (s + x) xs)"

fun is_probability_dist :: "numvec \<Rightarrow> bool" where
  "is_probability_dist [] = False"
| "is_probability_dist (x # xs) = is_probability_dist_loop x xs"


section \<open>The linear-programming interface (Gurobi objects used by srect\_gurobi.hpp)\<close>

text \<open>
  A variable handle names the array it was created in and its position there:
  \<open>x[a]\<close>, \<open>yp[i]\<close>, \<open>yn[i]\<close>, \<open>lambda\<close>, \<open>d[a]\<close>.
\<close>

datatype grb_var = X nat | YP nat | YN nat | Lambda | D nat

text \<open>
  \<open>GRBLinExpr\<close>: a list of terms (coefficient, variable) and a constant.  The operators
  of the C++ interface build such expressions; \<open>le_eval\<close> is the value of an expression
  under an assignment of the variables.
\<close>

datatype linexpr = LinExpr "(prec_t \<times> grb_var) list" prec_t

definition le_zero :: linexpr where
  "le_zero = LinExpr [] 0"

definition le_var :: "grb_var \<Rightarrow> linexpr" where
  "le_var x = LinExpr [(1, x)] 0"

definition le_const :: "prec_t \<Rightarrow> linexpr" where
  "le_const c = LinExpr [] c"

fun le_scale :: "prec_t \<Rightarrow> linexpr \<Rightarrow> linexpr" where
  "le_scale k (LinExpr ts c) = LinExpr (map (\<lambda>(q, x). (k * q, x)) ts) (k * c)"

definition le_neg :: "linexpr \<Rightarrow> linexpr" where
  "le_neg e = le_scale (- 1) e"

fun le_add :: "linexpr \<Rightarrow> linexpr \<Rightarrow> linexpr" where
  "le_add (LinExpr ts c) (LinExpr us d) = LinExpr (ts @ us) (c + d)"

definition le_sub :: "linexpr \<Rightarrow> linexpr \<Rightarrow> linexpr" where
  "le_sub e f = le_add e (le_neg f)"

text \<open>\<open>GRBLinExpr::addTerms(coeffs, vars, count)\<close> applied to an empty expression.\<close>

definition le_addTerms :: "prec_t list \<Rightarrow> grb_var list \<Rightarrow> linexpr" where
  "le_addTerms coeffs vars = LinExpr (zip coeffs vars) 0"

fun le_eval :: "(grb_var \<Rightarrow> prec_t) \<Rightarrow> linexpr \<Rightarrow> prec_t" where
  "le_eval v (LinExpr ts c) = (\<Sum>(q, x) \<leftarrow> ts. q * v x) + c"

text \<open>The coefficient of a variable in an expression (terms on the same variable add up).\<close>

fun le_coeff :: "linexpr \<Rightarrow> grb_var \<Rightarrow> prec_t" where
  "le_coeff (LinExpr ts c) x = (\<Sum>(q, y) \<leftarrow> ts. if y = x then q else 0)"

text \<open>
  Bounds are doubles that may be infinite.  A constraint compares two expressions and
  carries a name; a model holds the declared variables, the constraints in the order
  they were added, and the objective with its direction.
\<close>

datatype xreal = MinusInf | Fin prec_t | PlusInf

datatype grb_sense = LESS_EQUAL | EQUAL | GREATER_EQUAL

datatype grb_modelsense = MINIMIZE | MAXIMIZE

record grb_vardecl =
  vd_var :: grb_var
  vd_lb :: xreal
  vd_ub :: xreal

record grb_constr =
  c_lhs :: linexpr
  c_sense :: grb_sense
  c_rhs :: linexpr
  c_name :: string

record grb_model =
  m_vars :: "grb_vardecl list"
  m_constrs :: "grb_constr list"
  m_objective :: linexpr
  m_modelsense :: grb_modelsense

definition GRBModel :: grb_model where
  "GRBModel = \<lparr>m_vars = [], m_constrs = [], m_objective = le_zero, m_modelsense = MINIMIZE\<rparr>"

text \<open>
  \<open>addVars(lb, ub, obj, type, names, count)\<close>: a null \<open>lb\<close> gives every variable the
  lower bound 0 and a null \<open>ub\<close> the upper bound infinity.  The objective coefficients
  given at creation are replaced by the later \<open>setObjective\<close> and are not recorded.
\<close>

definition addVars ::
  "grb_model \<Rightarrow> (nat \<Rightarrow> grb_var) \<Rightarrow> xreal list option \<Rightarrow> xreal list option \<Rightarrow> nat \<Rightarrow> grb_model" where
  "addVars m mk lb ub n =
     m\<lparr>m_vars := m_vars m @
        map (\<lambda>k. \<lparr>vd_var = mk k,
                   vd_lb = (case lb of None \<Rightarrow> Fin 0 | Some ls \<Rightarrow> ls ! k),
                   vd_ub = (case ub of None \<Rightarrow> PlusInf | Some us \<Rightarrow> us ! k)\<rparr>) [0..<n]\<rparr>"

definition addVar :: "grb_model \<Rightarrow> grb_var \<Rightarrow> xreal \<Rightarrow> xreal \<Rightarrow> grb_model" where
  "addVar m x lb ub = m\<lparr>m_vars := m_vars m @ [\<lparr>vd_var = x, vd_lb = lb, vd_ub = ub\<rparr>]\<rparr>"

definition addConstr :: "grb_model \<Rightarrow> linexpr \<Rightarrow> grb_sense \<Rightarrow> linexpr \<Rightarrow> string \<Rightarrow> grb_model" where
  "addConstr m l s r nm =
     m\<lparr>m_constrs := m_constrs m @ [\<lparr>c_lhs = l, c_sense = s, c_rhs = r, c_name = nm\<rparr>]\<rparr>"

definition setObjective :: "grb_model \<Rightarrow> linexpr \<Rightarrow> grb_modelsense \<Rightarrow> grb_model" where
  "setObjective m e s = m\<lparr>m_objective := e, m_modelsense := s\<rparr>"

text \<open>
  What \<open>model.optimize()\<close> leaves behind: the status, and, when a solution is
  available, the objective value, the value of each variable (attribute \<open>X\<close>) and the dual
  value of each constraint by its position (attribute \<open>Pi\<close>).  Querying an attribute
  when no solution is available throws \<open>GRBException\<close>.  The solver itself is not part
  of the repository and is a parameter of the two solve functions.
\<close>

datatype grb_status =
  LOADED | OPTIMAL | INFEASIBLE | INF_OR_UNBD | UNBOUNDED | CUTOFF | ITERATION_LIMIT
  | NODE_LIMIT | TIME_LIMIT | SOLUTION_LIMIT | INTERRUPTED | NUMERIC | SUBOPTIMAL

record grb_solution =
  sol_ObjVal :: prec_t
  sol_X :: "grb_var \<Rightarrow> prec_t"
  sol_Pi :: "nat \<Rightarrow> prec_t"

record grb_result =
  r_status :: grb_status
  r_solution :: "grb_solution option"

type_synonym grb_optimize = "grb_model \<Rightarrow> grb_result"

text \<open>
  The failures of a call: a failed \<open>assert\<close> (assertions are modelled as enabled), the
  \<open>invalid_argument\<close> thrown by the code with its message, an exception thrown by an
  attribute query, and an element access past the end of a vector (undefined in C++).
\<close>

datatype error = AssertionFailed | InvalidArgument string | GRBException | OutOfRange


section \<open>The s-rectangular L1 update (srect\_l1\_solve\_gurobi)\<close>

text \<open>
  The inner loop over the outcomes of one action.  The loop state is the absolute
  counter \<open>i\<close>, the objective built so far and the model.  \<open>pbar[actionid][stateid]\<close> is
  in range by the loop bound; \<open>z[actionid][stateid]\<close> and \<open>w[actionid][stateid]\<close> are
  read without a check.
\<close>

fun srect_l1_states ::
  "numvecvec \<Rightarrow> numvecvec \<Rightarrow> numvecvec \<Rightarrow> nat \<Rightarrow> nat list \<Rightarrow>
   nat \<times> linexpr \<times> grb_model \<Rightarrow> error + (nat \<times> linexpr \<times> grb_model)" where
  "srect_l1_states z pbar w actionid [] st = Inr st"
| "srect_l1_states z pbar w actionid (stateid # rest) (i, objective, model) =
     (if \<not> stateid < length (z ! actionid) then Inl OutOfRange
      else if w \<noteq> [] \<and> \<not> stateid < length (w ! actionid) then Inl OutOfRange
      else
        let objective1 =
              le_add objective (le_scale (- (pbar ! actionid ! stateid)) (le_var (YP i)));
            objective2 =
              le_add objective1 (le_scale (pbar ! actionid ! stateid) (le_var (YN i)));
            model1 = addConstr model
              (le_add (le_sub (le_var (X actionid)) (le_var (YP i))) (le_var (YN i)))
              LESS_EQUAL (le_scale (z ! actionid ! stateid) (le_var (D actionid))) ''P'';
            weight = (if length w > 0 then w ! actionid ! stateid else 1);
            model2 = addConstr model1
              (le_add (le_add (le_scale weight (le_neg (le_var Lambda))) (le_var (YP i)))
                 (le_var (YN i)))
              LESS_EQUAL (le_const 0) ''psi''
        in srect_l1_states z pbar w actionid rest (Suc i, objective2, model2))"

fun srect_l1_actions ::
  "numvecvec \<Rightarrow> numvecvec \<Rightarrow> numvecvec \<Rightarrow> nat list \<Rightarrow> nat list \<Rightarrow>
   nat \<times> linexpr \<times> grb_model \<Rightarrow> error + (nat \<times> linexpr \<times> grb_model)" where
  "srect_l1_actions z pbar w statecounts [] st = Inr st"
| "srect_l1_actions z pbar w statecounts (actionid # rest) (i, objective, model) =
     (case srect_l1_states z pbar w actionid [0..<statecounts ! actionid]
             (i, le_add objective (le_var (X actionid)), model) of
        Inl e \<Rightarrow> Inl e
      | Inr st \<Rightarrow> srect_l1_actions z pbar w statecounts rest st)"

text \<open>
  Everything up to \<open>model.setObjective\<close>: the assertions, the variables, the constraint
  on the policy (pinned to \<open>policy_eval\<close> when that vector is not empty, normalised
  otherwise), the two constraints per action and outcome, and the objective.
\<close>

definition srect_l1_build ::
  "numvecvec \<Rightarrow> numvecvec \<Rightarrow> prec_t \<Rightarrow> numvecvec \<Rightarrow> numvec \<Rightarrow> error + grb_model" where
  "srect_l1_build z pbar kappa w policy_eval =
     (if length pbar \<noteq> length z then Inl AssertionFailed
      else if \<not> (w = [] \<or> length w = length z) then Inl AssertionFailed
      else
        let nactions = length pbar;
            statecounts = map length pbar;
            nstateactions = sum_list statecounts;
            model0 = GRBModel;
            model1 = addVars model0 X (Some (replicate nactions MinusInf)) None nactions;
            model2 = addVars model1 YP None None nstateactions;
            model3 = addVars model2 YN None None nstateactions;
            model4 = addVar model3 Lambda (Fin 0) PlusInf;
            model5 = addVars model4 D (Some (replicate nactions (Fin 0))) None nactions
        in
        if \<not> (policy_eval = [] \<or> length policy_eval = length z) then Inl AssertionFailed
        else if policy_eval \<noteq> [] \<and> \<not> is_probability_dist policy_eval
          then Inl AssertionFailed
        else
          let model6 =
                (if policy_eval \<noteq> [] then
                   fold (\<lambda>i m. addConstr m (le_var (D i)) EQUAL (le_const (policy_eval ! i)) [])
                     [0..<length policy_eval] model5
                 else
                   addConstr model5 (le_addTerms (replicate nactions 1) (map D [0..<nactions]))
                     EQUAL (le_const 1) ''pi'')
          in
          case srect_l1_actions z pbar w statecounts [0..<nactions] (0, le_zero, model6) of
            Inl e \<Rightarrow> Inl e
          | Inr (i, objective, model7) \<Rightarrow>
              Inr (setObjective model7
                     (le_add objective (le_scale kappa (le_neg (le_var Lambda)))) MAXIMIZE))"

text \<open>
  After \<open>model.optimize()\<close>: the status test, the policy read from \<open>d\<close>, and the dual
  values of the constraints named \<open>psi\<close>, pushed in the order of the constraints.
\<close>

definition srect_l1_extract ::
  "nat \<Rightarrow> grb_model \<Rightarrow> grb_result \<Rightarrow> error + (prec_t \<times> numvec \<times> numvec)" where
  "srect_l1_extract nactions model r =
     (if r_status r \<noteq> OPTIMAL then Inl (InvalidArgument ''Failed to solve the LP.'')
      else
        case r_solution r of
          None \<Rightarrow> Inl GRBException
        | Some sol \<Rightarrow>
            let policy = map (\<lambda>i. sol_X sol (D i)) [0..<nactions];
                constrNum = length (m_constrs model);
                budgets =
                  fold (\<lambda>j budgets.
                          if c_name (m_constrs model ! j) = ''psi''
                          then budgets @ [sol_Pi sol j] else budgets)
                    [0..<constrNum] []
            in Inr (sol_ObjVal sol, policy, budgets))"

definition srect_l1_solve_gurobi ::
  "grb_optimize \<Rightarrow> numvecvec \<Rightarrow> numvecvec \<Rightarrow> prec_t \<Rightarrow> numvecvec \<Rightarrow> numvec \<Rightarrow>
   error + (prec_t \<times> numvec \<times> numvec)" where
  "srect_l1_solve_gurobi optimize z pbar kappa w policy_eval =
     (case srect_l1_build z pbar kappa w policy_eval of
        Inl e \<Rightarrow> Inl e
      | Inr model \<Rightarrow> srect_l1_extract (length pbar) model (optimize model))"


section \<open>The s-rectangular L-infinity update (srect\_linf\_solve\_gurobi)\<close>

text \<open>
  The inner loop also collects \<open>z_dual\<close>, the sum of \<open>yp[i] + yn[i]\<close> over the outcomes
  of the action; the weights \<open>w\<close> are not read.
\<close>

fun srect_linf_states ::
  "numvecvec \<Rightarrow> numvecvec \<Rightarrow> nat \<Rightarrow> nat list \<Rightarrow>
   nat \<times> linexpr \<times> grb_model \<times> linexpr \<Rightarrow> error + (nat \<times> linexpr \<times> grb_model \<times> linexpr)" where
  "srect_linf_states z pbar actionid [] st = Inr st"
| "srect_linf_states z pbar actionid (stateid # rest) (i, objective, model, z_dual) =
     (if \<not> stateid < length (z ! actionid) then Inl OutOfRange
      else
        let objective1 =
              le_add objective (le_scale (- (pbar ! actionid ! stateid)) (le_var (YP i)));
            objective2 =
              le_add objective1 (le_scale (pbar ! actionid ! stateid) (le_var (YN i)));
            model1 = addConstr model
              (le_add (le_sub (le_var (X actionid)) (le_var (YP i))) (le_var (YN i)))
              LESS_EQUAL (le_scale (z ! actionid ! stateid) (le_var (D actionid))) ''P'';
            z_dual1 = le_add z_dual (le_add (le_var (YP i)) (le_var (YN i)))
        in srect_linf_states z pbar actionid rest (Suc i, objective2, model1, z_dual1))"

fun srect_linf_actions ::
  "numvecvec \<Rightarrow> numvecvec \<Rightarrow> nat list \<Rightarrow> nat list \<Rightarrow>
   nat \<times> linexpr \<times> grb_model \<Rightarrow> error + (nat \<times> linexpr \<times> grb_model)" where
  "srect_linf_actions z pbar statecounts [] st = Inr st"
| "srect_linf_actions z pbar statecounts (actionid # rest) (i, objective, model) =
     (case srect_linf_states z pbar actionid [0..<statecounts ! actionid]
             (i, le_add objective (le_var (X actionid)), model, le_zero) of
        Inl e \<Rightarrow> Inl e
      | Inr (i1, objective1, model1, z_dual) \<Rightarrow>
          let weight = 1;
              model2 = addConstr model1 (le_add (le_scale weight (le_neg (le_var Lambda))) z_dual)
                LESS_EQUAL (le_const 0) ''theta''
          in srect_linf_actions z pbar statecounts rest (i1, objective1, model2))"

definition srect_linf_build ::
  "numvecvec \<Rightarrow> numvecvec \<Rightarrow> prec_t \<Rightarrow> numvecvec \<Rightarrow> error + grb_model" where
  "srect_linf_build z pbar kappa w =
     (if length pbar \<noteq> length z then Inl AssertionFailed
      else if \<not> (w = [] \<or> length w = length z) then Inl AssertionFailed
      else
        let nactions = length pbar;
            statecounts = map length pbar;
            nstateactions = sum_list statecounts;
            model0 = GRBModel;
            model1 = addVars model0 X (Some (replicate nactions MinusInf)) None nactions;
            model2 = addVars model1 YP None None nstateactions;
            model3 = addVars model2 YN None None nstateactions;
            model4 = addVar model3 Lambda (Fin 0) PlusInf;
            model5 = addVars model4 D (Some (replicate nactions (Fin 0))) None nactions
        in
        case srect_linf_actions z pbar statecounts [0..<nactions] (0, le_zero, model5) of
          Inl e \<Rightarrow> Inl e
        | Inr (i, objective, model6) \<Rightarrow>
            let objective1 = le_add objective (le_scale kappa (le_neg (le_var Lambda)));
                model7 = addConstr model6
                  (le_addTerms (replicate nactions 1) (map D [0..<nactions]))
                  EQUAL (le_const 1) ''policy''
            in Inr (setObjective model7 objective1 MAXIMIZE))"

text \<open>
  The loop that fills \<open>budgets\<close>, a vector of \<open>nactions\<close> zeros, at the running
  position \<open>index\<close> with the dual values of the constraints named \<open>theta\<close>.
\<close>

fun srect_linf_budgets ::
  "grb_model \<Rightarrow> (nat \<Rightarrow> prec_t) \<Rightarrow> nat list \<Rightarrow> numvec \<times> nat \<Rightarrow> error + (numvec \<times> nat)" where
  "srect_linf_budgets model duals [] st = Inr st"
| "srect_linf_budgets model duals (j # rest) (budgets, index) =
     (if c_name (m_constrs model ! j) = ''theta'' then
        (if index < length budgets
         then srect_linf_budgets model duals rest (budgets[index := duals j], Suc index)
         else Inl OutOfRange)
      else srect_linf_budgets model duals rest (budgets, index))"

text \<open>After \<open>model.optimize()\<close>: there is no test of the status here.\<close>

definition srect_linf_extract ::
  "nat \<Rightarrow> grb_model \<Rightarrow> grb_result \<Rightarrow> error + (prec_t \<times> numvec \<times> numvec)" where
  "srect_linf_extract nactions model r =
     (case r_solution r of
        None \<Rightarrow> Inl GRBException
      | Some sol \<Rightarrow>
          (let policy = map (\<lambda>i. sol_X sol (D i)) [0..<nactions];
               constrNum = length (m_constrs model)
           in
           (case srect_linf_budgets model (sol_Pi sol) [0..<constrNum]
                   (replicate nactions 0, 0) of
              Inl e \<Rightarrow> Inl e
            | Inr (budgets, index) \<Rightarrow> Inr (sol_ObjVal sol, policy, budgets))))"

definition srect_linf_solve_gurobi ::
  "grb_optimize \<Rightarrow> numvecvec \<Rightarrow> numvecvec \<Rightarrow> prec_t \<Rightarrow> numvecvec \<Rightarrow>
   error + (prec_t \<times> numvec \<times> numvec)" where
  "srect_linf_solve_gurobi optimize z pbar kappa w =
     (case srect_linf_build z pbar kappa w of
        Inl e \<Rightarrow> Inl e
      | Inr model \<Rightarrow> srect_linf_extract (length pbar) model (optimize model))"


section \<open>What a model means, and what the solver is expected to return\<close>

text \<open>
  An assignment of the variables is feasible for a model when every declared variable is
  within its bounds and every constraint holds.
\<close>

fun lb_ok :: "xreal \<Rightarrow> prec_t \<Rightarrow> bool" where
  "lb_ok MinusInf x = True"
| "lb_ok (Fin l) x = (l \<le> x)"
| "lb_ok PlusInf x = False"

fun ub_ok :: "xreal \<Rightarrow> prec_t \<Rightarrow> bool" where
  "ub_ok MinusInf x = False"
| "ub_ok (Fin u) x = (x \<le> u)"
| "ub_ok PlusInf x = True"

definition var_ok :: "(grb_var \<Rightarrow> prec_t) \<Rightarrow> grb_vardecl \<Rightarrow> bool" where
  "var_ok v d = (lb_ok (vd_lb d) (v (vd_var d)) \<and> ub_ok (vd_ub d) (v (vd_var d)))"

fun sense_holds :: "grb_sense \<Rightarrow> prec_t \<Rightarrow> prec_t \<Rightarrow> bool" where
  "sense_holds LESS_EQUAL l r = (l \<le> r)"
| "sense_holds EQUAL l r = (l = r)"
| "sense_holds GREATER_EQUAL l r = (l \<ge> r)"

definition constr_holds :: "(grb_var \<Rightarrow> prec_t) \<Rightarrow> grb_constr \<Rightarrow> bool" where
  "constr_holds v c = sense_holds (c_sense c) (le_eval v (c_lhs c)) (le_eval v (c_rhs c))"

definition feasible :: "grb_model \<Rightarrow> (grb_var \<Rightarrow> prec_t) \<Rightarrow> bool" where
  "feasible m v = (list_all (var_ok v) (m_vars m) \<and> list_all (constr_holds v) (m_constrs m))"

fun no_better :: "grb_modelsense \<Rightarrow> prec_t \<Rightarrow> prec_t \<Rightarrow> bool" where
  "no_better MAXIMIZE other best = (other \<le> best)"
| "no_better MINIMIZE other best = (best \<le> other)"

text \<open>
  Modelled from the spec: the LP solving capability is an external collaborator (section 6
  of the specification: it solves the LP and, on optimal, exposes the primal values and
  the optimum).  A solution is optimal for a model when its primal values are feasible,
  its objective value is the objective at these values, and no feasible assignment does
  better.
\<close>

definition is_optimal :: "grb_model \<Rightarrow> grb_solution \<Rightarrow> bool" where
  "is_optimal m sol =
     (feasible m (sol_X sol) \<and>
      sol_ObjVal sol = le_eval (sol_X sol) (m_objective m) \<and>
      (\<forall>v. feasible m v \<longrightarrow>
         no_better (m_modelsense m) (le_eval v (m_objective m)) (sol_ObjVal sol)))"

text \<open>
  The value of the counter \<open>i\<close> when the loops reach outcome \<open>s\<close> of action \<open>a\<close>: the
  number of outcomes of the actions before \<open>a\<close>, plus \<open>s\<close>.  It is the position of
  \<open>yp\<close> and \<open>yn\<close> for that pair.
\<close>

definition yindex :: "numvecvec \<Rightarrow> nat \<Rightarrow> nat \<Rightarrow> nat" where
  "yindex pbar a s = sum_list (map length (take a pbar)) + s"

text \<open>
  The rows of \<open>z\<close> (and of \<open>w\<close>, when given) are at least as long as the rows of
  \<open>pbar\<close>: then no element is read past the end of a vector.
\<close>

definition rows_cover :: "numvecvec \<Rightarrow> numvecvec \<Rightarrow> bool" where
  "rows_cover pbar z = list_all2 (\<lambda>p r. length p \<le> length r) pbar z"


section \<open>The two models in closed form\<close>

text \<open>
  The definitions of this section describe, without loops, the model that each builder
  produces; \<open>srect_l1_build_iff\<close> and \<open>srect_linf_build_iff\<close> below prove that the
  builders return exactly these models.  \<open>le_sum\<close> adds up a list of expressions and
  \<open>addConstrs\<close> appends a list of constraints.
\<close>

definition le_sum :: "linexpr list \<Rightarrow> linexpr" where
  "le_sum es = foldr le_add es le_zero"

definition addConstrs :: "grb_model \<Rightarrow> grb_constr list \<Rightarrow> grb_model" where
  "addConstrs m cs = m\<lparr>m_constrs := m_constrs m @ cs\<rparr>"

text \<open>
  What one pass of the inner loop contributes for outcome \<open>s\<close> of action \<open>a\<close> at counter
  \<open>i\<close>: two terms of the objective, the constraint named \<open>P\<close> and (L1 only) the
  constraint named \<open>psi\<close>.
\<close>

definition obj_pair :: "numvecvec \<Rightarrow> nat \<Rightarrow> nat \<Rightarrow> nat \<Rightarrow> linexpr" where
  "obj_pair pbar a s i =
     le_add (le_scale (- (pbar ! a ! s)) (le_var (YP i))) (le_scale (pbar ! a ! s) (le_var (YN i)))"

definition P_constr :: "numvecvec \<Rightarrow> nat \<Rightarrow> nat \<Rightarrow> nat \<Rightarrow> grb_constr" where
  "P_constr z a s i =
     \<lparr>c_lhs = le_add (le_sub (le_var (X a)) (le_var (YP i))) (le_var (YN i)),
      c_sense = LESS_EQUAL, c_rhs = le_scale (z ! a ! s) (le_var (D a)), c_name = ''P''\<rparr>"

definition psi_constr :: "numvecvec \<Rightarrow> nat \<Rightarrow> nat \<Rightarrow> nat \<Rightarrow> grb_constr" where
  "psi_constr w a s i =
     \<lparr>c_lhs = le_add (le_add (le_scale (if length w > 0 then w ! a ! s else 1) (le_neg (le_var Lambda)))
                 (le_var (YP i))) (le_var (YN i)),
      c_sense = LESS_EQUAL, c_rhs = le_const 0, c_name = ''psi''\<rparr>"

text \<open>The contribution of one action: its part of the objective and its constraints.\<close>

definition l1_row_obj :: "numvecvec \<Rightarrow> nat \<Rightarrow> linexpr" where
  "l1_row_obj pbar a =
     le_add (le_var (X a))
       (le_sum (map (\<lambda>s. obj_pair pbar a s (yindex pbar a s)) [0..<length (pbar ! a)]))"

definition l1_row_constrs :: "numvecvec \<Rightarrow> numvecvec \<Rightarrow> numvecvec \<Rightarrow> nat \<Rightarrow> grb_constr list" where
  "l1_row_constrs z pbar w a =
     concat (map (\<lambda>s. [P_constr z a s (yindex pbar a s), psi_constr w a s (yindex pbar a s)])
       [0..<length (pbar ! a)])"

text \<open>The variables declared by both builders, in the order of creation.\<close>

definition srect_vars :: "numvecvec \<Rightarrow> grb_vardecl list" where
  "srect_vars pbar =
     map (\<lambda>k. \<lparr>vd_var = X k, vd_lb = MinusInf, vd_ub = PlusInf\<rparr>) [0..<length pbar] @
     map (\<lambda>k. \<lparr>vd_var = YP k, vd_lb = Fin 0, vd_ub = PlusInf\<rparr>) [0..<sum_list (map length pbar)] @
     map (\<lambda>k. \<lparr>vd_var = YN k, vd_lb = Fin 0, vd_ub = PlusInf\<rparr>) [0..<sum_list (map length pbar)] @
     [\<lparr>vd_var = Lambda, vd_lb = Fin 0, vd_ub = PlusInf\<rparr>] @
     map (\<lambda>k. \<lparr>vd_var = D k, vd_lb = Fin 0, vd_ub = PlusInf\<rparr>) [0..<length pbar]"

text \<open>
  The constraints on the policy: \<open>d[i] == policy_eval[i]\<close> for each position, or the sum
  of all \<open>d\<close> equal to one (named \<open>pi\<close> in the L1 builder, \<open>policy\<close> in the other).
\<close>

definition pin_constr :: "numvec \<Rightarrow> nat \<Rightarrow> grb_constr" where
  "pin_constr policy_eval i =
     \<lparr>c_lhs = le_var (D i), c_sense = EQUAL, c_rhs = le_const (policy_eval ! i), c_name = []\<rparr>"

definition sum_constr :: "nat \<Rightarrow> string \<Rightarrow> grb_constr" where
  "sum_constr n nm =
     \<lparr>c_lhs = le_addTerms (replicate n 1) (map D [0..<n]), c_sense = EQUAL,
      c_rhs = le_const 1, c_name = nm\<rparr>"

definition l1_policy_constrs :: "numvec \<Rightarrow> nat \<Rightarrow> grb_constr list" where
  "l1_policy_constrs policy_eval n =
     (if policy_eval \<noteq> [] then map (pin_constr policy_eval) [0..<length policy_eval]
      else [sum_constr n ''pi''])"

definition l1_model :: "numvecvec \<Rightarrow> numvecvec \<Rightarrow> prec_t \<Rightarrow> numvecvec \<Rightarrow> numvec \<Rightarrow> grb_model" where
  "l1_model z pbar kappa w policy_eval =
     \<lparr>m_vars = srect_vars pbar,
      m_constrs = l1_policy_constrs policy_eval (length pbar) @
        concat (map (l1_row_constrs z pbar w) [0..<length pbar]),
      m_objective = le_add (le_sum (map (l1_row_obj pbar) [0..<length pbar]))
        (le_scale kappa (le_neg (le_var Lambda))),
      m_modelsense = MAXIMIZE\<rparr>"

text \<open>
  L-infinity: per action, the constraints named \<open>P\<close> followed by the one named
  \<open>theta\<close>, whose left-hand side collects \<open>yp[i] + yn[i]\<close> over the outcomes.
\<close>

definition y_pair :: "nat \<Rightarrow> linexpr" where
  "y_pair i = le_add (le_var (YP i)) (le_var (YN i))"

definition theta_constr :: "numvecvec \<Rightarrow> nat \<Rightarrow> grb_constr" where
  "theta_constr pbar a =
     \<lparr>c_lhs = le_add (le_scale 1 (le_neg (le_var Lambda)))
               (le_sum (map (\<lambda>s. y_pair (yindex pbar a s)) [0..<length (pbar ! a)])),
      c_sense = LESS_EQUAL, c_rhs = le_const 0, c_name = ''theta''\<rparr>"

definition linf_row_constrs :: "numvecvec \<Rightarrow> numvecvec \<Rightarrow> nat \<Rightarrow> grb_constr list" where
  "linf_row_constrs z pbar a =
     map (\<lambda>s. P_constr z a s (yindex pbar a s)) [0..<length (pbar ! a)] @ [theta_constr pbar a]"

definition linf_model :: "numvecvec \<Rightarrow> numvecvec \<Rightarrow> prec_t \<Rightarrow> grb_model" where
  "linf_model z pbar kappa =
     \<lparr>m_vars = srect_vars pbar,
      m_constrs = concat (map (linf_row_constrs z pbar) [0..<length pbar]) @
        [sum_constr (length pbar) ''policy''],
      m_objective = le_add (le_sum (map (l1_row_obj pbar) [0..<length pbar]))
        (le_scale kappa (le_neg (le_var Lambda))),
      m_modelsense = MAXIMIZE\<rparr>"

section \<open>The contract of the solver and the quantities the claims speak of\<close>

text \<open>
  Modelled from the spec: the contract of the external solver for one model.  When the
  status it reports is \<open>OPTIMAL\<close>, the solution it exposes is optimal for the model.
\<close>

definition solves :: "grb_optimize \<Rightarrow> grb_model \<Rightarrow> bool" where
  "solves optimize m =
     (r_status (optimize m) = OPTIMAL \<longrightarrow>
      (\<forall>sol. r_solution (optimize m) = Some sol \<longrightarrow> is_optimal m sol))"

text \<open>The expected return of action \<open>a\<close> under the nominal probabilities: \<open>z[a] . pbar[a]\<close>.\<close>

definition nominal_return :: "numvecvec \<Rightarrow> numvecvec \<Rightarrow> nat \<Rightarrow> prec_t" where
  "nominal_return z pbar a = (\<Sum>s<length (pbar ! a). z ! a ! s * pbar ! a ! s)"

text \<open>
  A randomized policy over \<open>n\<close> actions, and its expected return under the nominal
  probabilities (the quantity maximised over \<open>d\<close> in the non-robust value).
\<close>

definition is_policy :: "nat \<Rightarrow> numvec \<Rightarrow> bool" where
  "is_policy n d = (length d = n \<and> list_all (\<lambda>x. 0 \<le> x) d \<and> sum_list d = 1)"

definition nominal_value :: "numvecvec \<Rightarrow> numvecvec \<Rightarrow> numvec \<Rightarrow> prec_t" where
  "nominal_value z pbar d = (\<Sum>a<length pbar. d ! a * nominal_return z pbar a)"

text \<open>
  Modelled from the spec: a row of the nominal transitions is a probability
  distribution when its entries are non-negative and sum to one within \<open>EPSILON\<close>
  (section 3 of the specification; the code does not check it).
\<close>

definition valid_dist :: "numvec \<Rightarrow> bool" where
  "valid_dist p = (list_all (\<lambda>x. 0 \<le> x) p \<and> \<bar>sum_list p - 1\<bar> < EPSILON)"

text \<open>The weights are omitted, or cover the rows of \<open>pbar\<close> and are strictly positive there.\<close>

definition positive_weights :: "numvecvec \<Rightarrow> numvecvec \<Rightarrow> bool" where
  "positive_weights pbar w =
     (w = [] \<or> list_all2 (\<lambda>p r. length p \<le> length r \<and> list_all (\<lambda>x. 0 < x) (take (length p) r)) pbar w)"

text \<open>
  An assignment of the variables built from values \<open>xs a\<close> for \<open>x[a]\<close>, \<open>ds a\<close> for
  \<open>d[a]\<close> and \<open>l\<close> for \<open>lambda\<close>: at the position of the pair \<open>(a, s)\<close>, \<open>yn - yp\<close> is
  \<open>ds a * z[a][s] - xs a\<close>, split into its positive and negative part.
\<close>

definition srect_point ::
  "numvecvec \<Rightarrow> numvecvec \<Rightarrow> (nat \<Rightarrow> prec_t) \<Rightarrow> (nat \<Rightarrow> prec_t) \<Rightarrow> prec_t \<Rightarrow> grb_var \<Rightarrow> prec_t" where
  "srect_point z pbar xs ds l var =
     (case var of
        X a \<Rightarrow> xs a
      | YP i \<Rightarrow> max (- (concat (map (\<lambda>a. map (\<lambda>s. ds a * z ! a ! s - xs a)
                  [0..<length (pbar ! a)]) [0..<length pbar]) ! i)) 0
      | YN i \<Rightarrow> max (concat (map (\<lambda>a. map (\<lambda>s. ds a * z ! a ! s - xs a)
                  [0..<length (pbar ! a)]) [0..<length pbar]) ! i) 0
      | Lambda \<Rightarrow> l
      | D a \<Rightarrow> ds a)"

text \<open>
  Modelled from the spec: the dual (shadow-price) values that the external solver
  exposes with an optimal solution (section 6 of the specification).  The coefficient
  of a variable in a constraint counts both sides; the reduced cost of a variable is its
  objective coefficient minus the dual-weighted sum of its constraint coefficients.  The
  duals are optimal when each has the sign that the direction of the objective and the
  sense of its constraint require, vanishes unless its constraint is tight, and the
  reduced cost of every variable pushes it against a bound at which it stands.
\<close>

definition row_coeff :: "grb_constr \<Rightarrow> grb_var \<Rightarrow> prec_t" where
  "row_coeff c x = le_coeff (c_lhs c) x - le_coeff (c_rhs c) x"

definition reduced_cost :: "grb_model \<Rightarrow> (nat \<Rightarrow> prec_t) \<Rightarrow> grb_var \<Rightarrow> prec_t" where
  "reduced_cost m duals x =
     le_coeff (m_objective m) x -
     (\<Sum>j<length (m_constrs m). duals j * row_coeff (m_constrs m ! j) x)"

fun dual_sign_ok :: "grb_modelsense \<Rightarrow> grb_sense \<Rightarrow> prec_t \<Rightarrow> bool" where
  "dual_sign_ok MAXIMIZE LESS_EQUAL p = (0 \<le> p)"
| "dual_sign_ok MAXIMIZE GREATER_EQUAL p = (p \<le> 0)"
| "dual_sign_ok MINIMIZE LESS_EQUAL p = (p \<le> 0)"
| "dual_sign_ok MINIMIZE GREATER_EQUAL p = (0 \<le> p)"
| "dual_sign_ok ms EQUAL p = True"

fun reduced_cost_ok :: "grb_modelsense \<Rightarrow> xreal \<Rightarrow> xreal \<Rightarrow> prec_t \<Rightarrow> prec_t \<Rightarrow> bool" where
  "reduced_cost_ok MAXIMIZE lb ub xv r = ((0 < r \<longrightarrow> ub = Fin xv) \<and> (r < 0 \<longrightarrow> lb = Fin xv))"
| "reduced_cost_ok MINIMIZE lb ub xv r = ((r < 0 \<longrightarrow> ub = Fin xv) \<and> (0 < r \<longrightarrow> lb = Fin xv))"

definition is_dual_optimal :: "grb_model \<Rightarrow> grb_solution \<Rightarrow> bool" where
  "is_dual_optimal m sol =
     ((\<forall>j<length (m_constrs m).
         dual_sign_ok (m_modelsense m) (c_sense (m_constrs m ! j)) (sol_Pi sol j) \<and>
         (sol_Pi sol j \<noteq> 0 \<longrightarrow>
            le_eval (sol_X sol) (c_lhs (m_constrs m ! j)) =
            le_eval (sol_X sol) (c_rhs (m_constrs m ! j)))) \<and>
      list_all (\<lambda>d. reduced_cost_ok (m_modelsense m) (vd_lb d) (vd_ub d) (sol_X sol (vd_var d))
                     (reduced_cost m (sol_Pi sol) (vd_var d))) (m_vars m))"

text \<open>
  Modelled from the spec: the contract of the external solver on the dual values, for one
  model.  When the status it reports is \<open>OPTIMAL\<close>, the duals it exposes with the solution
  are optimal for the model.
\<close>

definition dual_solves :: "grb_optimize \<Rightarrow> grb_model \<Rightarrow> bool" where
  "dual_solves optimize m =
     (r_status (optimize m) = OPTIMAL \<longrightarrow>
      (\<forall>sol. r_solution (optimize m) = Some sol \<longrightarrow> is_dual_optimal m sol))"

text \<open>The weight of every pair of an action and an outcome, in the order of the loops.\<close>

definition l1_weights :: "numvecvec \<Rightarrow> numvecvec \<Rightarrow> numvec" where
  "l1_weights pbar w =
     concat (map (\<lambda>a. map (\<lambda>s. if w = [] then 1 else w ! a ! s) [0..<length (pbar ! a)])
       [0..<length pbar])"

text \<open>The pairs of an action and an outcome, in the order of the loops.\<close>

definition srect_pairs :: "numvecvec \<Rightarrow> (nat \<times> nat) list" where
  "srect_pairs pbar = concat (map (\<lambda>a. map (\<lambda>s. (a, s)) [0..<length (pbar ! a)]) [0..<length pbar])"


section \<open>Basic facts about expressions and models\<close>

lemma le_add_assoc: "le_add (le_add e f) g = le_add e (le_add f g)"
  by (cases e; cases f; cases g) simp

lemma le_add_zero_right: "le_add e le_zero = e"
  by (cases e) (simp add: le_zero_def)

lemma le_sum_Nil: "le_sum [] = le_zero"
  by (simp add: le_sum_def)

lemma le_sum_Cons: "le_sum (e # es) = le_add e (le_sum es)"
  by (simp add: le_sum_def)

lemma le_sum_append: "le_sum (es @ fs) = le_add (le_sum es) (le_sum fs)"
proof (induction es)
  case Nil
  show ?case by (cases "le_sum fs") (simp add: le_sum_Nil le_zero_def)
next
  case (Cons e es)
  then show ?case by (simp add: le_sum_Cons le_add_assoc)
qed

lemma addConstr_addConstrs:
  "addConstr m l s r nm = addConstrs m [\<lparr>c_lhs = l, c_sense = s, c_rhs = r, c_name = nm\<rparr>]"
  by (simp add: addConstr_def addConstrs_def)

lemma addConstrs_addConstrs: "addConstrs (addConstrs m cs) ds = addConstrs m (cs @ ds)"
  by (simp add: addConstrs_def)

lemma addConstrs_Nil: "addConstrs m [] = m"
  by (simp add: addConstrs_def)

section \<open>The builders return the closed forms\<close>

lemma srect_l1_states_upt:
  assumes "n \<le> length (z ! a)" "w = [] \<or> n \<le> length (w ! a)" "s0 \<le> n"
  shows "srect_l1_states z pbar w a [s0..<n] (i + s0, obj, m) =
     Inr (i + n,
          le_add obj (le_sum (map (\<lambda>s. obj_pair pbar a s (i + s)) [s0..<n])),
          addConstrs m (concat (map (\<lambda>s. [P_constr z a s (i + s), psi_constr w a s (i + s)]) [s0..<n])))"
  using assms
proof (induction "n - s0" arbitrary: s0 obj m)
  case 0
  then show ?case by (simp add: le_sum_Nil le_add_zero_right addConstrs_Nil)
next
  case (Suc k)
  then have lt: "s0 < n" by simp
  have upt: "[s0..<n] = s0 # [Suc s0..<n]" using lt by (simp add: upt_conv_Cons)
  have k: "k = n - Suc s0" using Suc.hyps(2) by simp
  have ih: "\<And>obj m. srect_l1_states z pbar w a [Suc s0..<n] (Suc (i + s0), obj, m) =
     Inr (i + n,
          le_add obj (le_sum (map (\<lambda>s. obj_pair pbar a s (i + s)) [Suc s0..<n])),
          addConstrs m (concat (map (\<lambda>s. [P_constr z a s (i + s), psi_constr w a s (i + s)]) [Suc s0..<n])))"
    using Suc.hyps(1)[OF k] Suc.prems lt by simp
  have r1: "s0 < length (z ! a)" using lt Suc.prems by simp
  have r2: "w \<noteq> [] \<Longrightarrow> s0 < length (w ! a)" using lt Suc.prems by auto
  have step: "srect_l1_states z pbar w a (s0 # [Suc s0..<n]) (i + s0, obj, m) =
      srect_l1_states z pbar w a [Suc s0..<n]
        (Suc (i + s0),
         le_add (le_add obj (le_scale (- (pbar ! a ! s0)) (le_var (YP (i + s0)))))
           (le_scale (pbar ! a ! s0) (le_var (YN (i + s0)))),
         addConstrs m [P_constr z a s0 (i + s0), psi_constr w a s0 (i + s0)])"
    using r1 r2
    by (cases "w = []")
       (simp_all add: Let_def addConstr_addConstrs addConstrs_addConstrs
          P_constr_def psi_constr_def del: upt_Suc)
  show ?case
    unfolding upt step ih
    by (simp add: le_sum_Cons le_add_assoc addConstrs_addConstrs obj_pair_def del: upt_Suc)
qed

lemma le_add_zero_left: "le_add le_zero e = e"
  by (cases e) (simp add: le_zero_def)

lemma yindex_Suc: "a < length pbar \<Longrightarrow> yindex pbar (Suc a) 0 = yindex pbar a 0 + length (pbar ! a)"
  by (simp add: yindex_def take_Suc_conv_app_nth)

lemma yindex_add: "yindex pbar a s = yindex pbar a 0 + s"
  by (simp add: yindex_def)

lemma yindex_0_0: "yindex pbar 0 0 = 0"
  by (simp add: yindex_def)

lemma rows_coverD: "rows_cover pbar z \<Longrightarrow> a < length pbar \<Longrightarrow> length (pbar ! a) \<le> length (z ! a)"
  by (simp add: rows_cover_def list_all2_conv_all_nth)

lemma rows_cover_length: "rows_cover pbar z \<Longrightarrow> length pbar = length z"
  by (simp add: rows_cover_def list_all2_lengthD)

lemma srect_l1_actions_append:
  "srect_l1_actions z pbar w sc (as @ bs) st =
     (case srect_l1_actions z pbar w sc as st of
        Inl e \<Rightarrow> Inl e
      | Inr st' \<Rightarrow> srect_l1_actions z pbar w sc bs st')"
proof (induction as arbitrary: st)
  case Nil
  show ?case by simp
next
  case (Cons a as)
  obtain i obj m where st: "st = (i, obj, m)" by (cases st)
  show ?case unfolding st by (simp add: Cons split: sum.splits)
qed

lemma srect_l1_actions_upt:
  assumes cov: "rows_cover pbar z" "w = [] \<or> rows_cover pbar w" and k: "k \<le> length pbar"
  shows "srect_l1_actions z pbar w (map length pbar) [0..<k] (0, obj, m) =
     Inr (yindex pbar k 0,
          le_add obj (le_sum (map (l1_row_obj pbar) [0..<k])),
          addConstrs m (concat (map (l1_row_constrs z pbar w) [0..<k])))"
  using k
proof (induction k)
  case 0
  show ?case by (simp add: yindex_0_0 le_sum_Nil le_add_zero_right addConstrs_Nil)
next
  case (Suc k)
  then have lt: "k < length pbar" by simp
  have z: "length (pbar ! k) \<le> length (z ! k)" using cov(1) lt by (rule rows_coverD)
  have w: "w = [] \<or> length (pbar ! k) \<le> length (w ! k)"
    using cov(2) lt by (auto dest: rows_coverD)
  have inner: "\<And>obj m. srect_l1_states z pbar w k [0..<length (pbar ! k)] (yindex pbar k 0, obj, m) =
     Inr (yindex pbar k 0 + length (pbar ! k),
          le_add obj (le_sum (map (\<lambda>s. obj_pair pbar k s (yindex pbar k 0 + s)) [0..<length (pbar ! k)])),
          addConstrs m (concat (map (\<lambda>s. [P_constr z k s (yindex pbar k 0 + s),
             psi_constr w k s (yindex pbar k 0 + s)]) [0..<length (pbar ! k)])))"
    using srect_l1_states_upt[OF z w, of 0 pbar "yindex pbar k 0"] by simp
  have row_obj: "l1_row_obj pbar k = le_add (le_var (X k))
       (le_sum (map (\<lambda>s. obj_pair pbar k s (yindex pbar k 0 + s)) [0..<length (pbar ! k)]))"
    by (simp add: l1_row_obj_def yindex_def)
  have row_constrs: "l1_row_constrs z pbar w k = concat (map (\<lambda>s. [P_constr z k s (yindex pbar k 0 + s),
             psi_constr w k s (yindex pbar k 0 + s)]) [0..<length (pbar ! k)])"
    by (simp add: l1_row_constrs_def yindex_def)
  have inner': "\<And>obj m. srect_l1_states z pbar w k [0..<length (pbar ! k)]
        (yindex pbar k 0, le_add obj (le_var (X k)), m) =
     Inr (yindex pbar (Suc k) 0, le_add obj (l1_row_obj pbar k),
          addConstrs m (l1_row_constrs z pbar w k))"
    unfolding inner row_obj row_constrs using lt by (simp add: yindex_Suc le_add_assoc)
  have "srect_l1_actions z pbar w (map length pbar) [0..<Suc k] (0, obj, m) =
      srect_l1_actions z pbar w (map length pbar) [k]
        (yindex pbar k 0, le_add obj (le_sum (map (l1_row_obj pbar) [0..<k])),
          addConstrs m (concat (map (l1_row_constrs z pbar w) [0..<k])))"
    using Suc.IH lt by (simp add: srect_l1_actions_append)
  also have "\<dots> = Inr (yindex pbar (Suc k) 0,
          le_add (le_add obj (le_sum (map (l1_row_obj pbar) [0..<k]))) (l1_row_obj pbar k),
          addConstrs (addConstrs m (concat (map (l1_row_constrs z pbar w) [0..<k])))
             (l1_row_constrs z pbar w k))"
    using lt by (simp add: inner')
  also have "\<dots> = Inr (yindex pbar (Suc k) 0,
          le_add obj (le_sum (map (l1_row_obj pbar) [0..<Suc k])),
          addConstrs m (concat (map (l1_row_constrs z pbar w) [0..<Suc k])))"
    by (simp add: le_sum_append le_sum_Cons le_sum_Nil le_add_zero_right le_add_assoc
        addConstrs_addConstrs)
  finally show ?case .
qed

lemma fold_pin:
  "fold (\<lambda>i m. addConstr m (le_var (D i)) EQUAL (le_const (pe ! i)) []) xs m =
     addConstrs m (map (pin_constr pe) xs)"
  by (induction xs arbitrary: m)
     (simp_all add: addConstrs_Nil addConstr_addConstrs addConstrs_addConstrs pin_constr_def)

lemma srect_vars_eq:
  "addVars (addVar (addVars (addVars (addVars GRBModel X (Some (replicate (length pbar) MinusInf)) None (length pbar))
       YP None None (sum_list (map length pbar))) YN None None (sum_list (map length pbar)))
       Lambda (Fin 0) PlusInf) D (Some (replicate (length pbar) (Fin 0))) None (length pbar) =
   \<lparr>m_vars = srect_vars pbar, m_constrs = [], m_objective = le_zero, m_modelsense = MINIMIZE\<rparr>"
  by (simp add: addVars_def addVar_def GRBModel_def srect_vars_def)

lemma srect_l1_build_closed:
  assumes "rows_cover pbar z" "w = [] \<or> rows_cover pbar w"
    and "policy_eval = [] \<or> length policy_eval = length z \<and> is_probability_dist policy_eval"
  shows "srect_l1_build z pbar kappa w policy_eval = Inr (l1_model z pbar kappa w policy_eval)"
proof -
  have len: "length pbar = length z" using assms(1) by (rule rows_cover_length)
  have lenw: "w = [] \<or> length w = length z"
    using assms(2) len by (auto dest: rows_cover_length)
  show ?thesis
    unfolding srect_l1_build_def Let_def srect_vars_eq fold_pin
    using len lenw assms(3)
    by (auto simp add: addConstr_addConstrs
        srect_l1_actions_upt[OF assms(1,2)] le_add_zero_left l1_model_def l1_policy_constrs_def
        addConstrs_def setObjective_def sum_constr_def)
qed

lemma srect_linf_states_upt:
  assumes "n \<le> length (z ! a)" "s0 \<le> n"
  shows "srect_linf_states z pbar a [s0..<n] (i + s0, obj, m, zd) =
     Inr (i + n,
          le_add obj (le_sum (map (\<lambda>s. obj_pair pbar a s (i + s)) [s0..<n])),
          addConstrs m (map (\<lambda>s. P_constr z a s (i + s)) [s0..<n]),
          le_add zd (le_sum (map (\<lambda>s. y_pair (i + s)) [s0..<n])))"
  using assms
proof (induction "n - s0" arbitrary: s0 obj m zd)
  case 0
  then show ?case by (simp add: le_sum_Nil le_add_zero_right addConstrs_Nil)
next
  case (Suc k)
  then have lt: "s0 < n" by simp
  have upt: "[s0..<n] = s0 # [Suc s0..<n]" using lt by (simp add: upt_conv_Cons)
  have k: "k = n - Suc s0" using Suc.hyps(2) by simp
  have ih: "\<And>obj m zd. srect_linf_states z pbar a [Suc s0..<n] (Suc (i + s0), obj, m, zd) =
     Inr (i + n,
          le_add obj (le_sum (map (\<lambda>s. obj_pair pbar a s (i + s)) [Suc s0..<n])),
          addConstrs m (map (\<lambda>s. P_constr z a s (i + s)) [Suc s0..<n]),
          le_add zd (le_sum (map (\<lambda>s. y_pair (i + s)) [Suc s0..<n])))"
    using Suc.hyps(1)[OF k] Suc.prems lt by simp
  have r1: "s0 < length (z ! a)" using lt Suc.prems by simp
  have step: "srect_linf_states z pbar a (s0 # [Suc s0..<n]) (i + s0, obj, m, zd) =
      srect_linf_states z pbar a [Suc s0..<n]
        (Suc (i + s0),
         le_add (le_add obj (le_scale (- (pbar ! a ! s0)) (le_var (YP (i + s0)))))
           (le_scale (pbar ! a ! s0) (le_var (YN (i + s0)))),
         addConstrs m [P_constr z a s0 (i + s0)],
         le_add zd (y_pair (i + s0)))"
    using r1
    by (simp add: Let_def addConstr_addConstrs P_constr_def y_pair_def del: upt_Suc)
  show ?case
    unfolding upt step ih
    by (simp add: le_sum_Cons le_add_assoc addConstrs_addConstrs obj_pair_def del: upt_Suc)
qed

lemma srect_linf_actions_append:
  "srect_linf_actions z pbar sc (as @ bs) st =
     (case srect_linf_actions z pbar sc as st of
        Inl e \<Rightarrow> Inl e
      | Inr st' \<Rightarrow> srect_linf_actions z pbar sc bs st')"
proof (induction as arbitrary: st)
  case Nil
  show ?case by simp
next
  case (Cons a as)
  obtain i obj m where st: "st = (i, obj, m)" by (cases st)
  show ?case unfolding st by (simp add: Cons Let_def split: sum.splits prod.splits)
qed

lemma srect_linf_actions_upt:
  assumes cov: "rows_cover pbar z" and k: "k \<le> length pbar"
  shows "srect_linf_actions z pbar (map length pbar) [0..<k] (0, obj, m) =
     Inr (yindex pbar k 0,
          le_add obj (le_sum (map (l1_row_obj pbar) [0..<k])),
          addConstrs m (concat (map (linf_row_constrs z pbar) [0..<k])))"
  using k
proof (induction k)
  case 0
  show ?case by (simp add: yindex_0_0 le_sum_Nil le_add_zero_right addConstrs_Nil)
next
  case (Suc k)
  then have lt: "k < length pbar" by simp
  have z: "length (pbar ! k) \<le> length (z ! k)" using cov(1) lt by (rule rows_coverD)
  have inner: "\<And>obj m zd. srect_linf_states z pbar k [0..<length (pbar ! k)]
         (yindex pbar k 0, obj, m, zd) =
     Inr (yindex pbar k 0 + length (pbar ! k),
          le_add obj (le_sum (map (\<lambda>s. obj_pair pbar k s (yindex pbar k 0 + s)) [0..<length (pbar ! k)])),
          addConstrs m (map (\<lambda>s. P_constr z k s (yindex pbar k 0 + s)) [0..<length (pbar ! k)]),
          le_add zd (le_sum (map (\<lambda>s. y_pair (yindex pbar k 0 + s)) [0..<length (pbar ! k)])))"
    using srect_linf_states_upt[OF z, of 0 pbar "yindex pbar k 0"] by simp
  have row_obj: "l1_row_obj pbar k = le_add (le_var (X k))
       (le_sum (map (\<lambda>s. obj_pair pbar k s (yindex pbar k 0 + s)) [0..<length (pbar ! k)]))"
    by (simp add: l1_row_obj_def yindex_def)
  have row_constrs: "linf_row_constrs z pbar k =
       map (\<lambda>s. P_constr z k s (yindex pbar k 0 + s)) [0..<length (pbar ! k)] @
       [\<lparr>c_lhs = le_add (le_scale 1 (le_neg (le_var Lambda)))
               (le_sum (map (\<lambda>s. y_pair (yindex pbar k 0 + s)) [0..<length (pbar ! k)])),
      c_sense = LESS_EQUAL, c_rhs = le_const 0, c_name = ''theta''\<rparr>]"
    by (simp add: linf_row_constrs_def theta_constr_def yindex_def)
  have one: "\<And>obj m. srect_linf_actions z pbar (map length pbar) [k] (yindex pbar k 0, obj, m) =
     Inr (yindex pbar (Suc k) 0, le_add obj (l1_row_obj pbar k),
          addConstrs m (linf_row_constrs z pbar k))"
    unfolding row_obj row_constrs using lt
    by (simp add: inner yindex_Suc le_add_assoc le_add_zero_left addConstr_addConstrs
        addConstrs_addConstrs)
  have "srect_linf_actions z pbar (map length pbar) [0..<Suc k] (0, obj, m) =
      srect_linf_actions z pbar (map length pbar) [k]
        (yindex pbar k 0, le_add obj (le_sum (map (l1_row_obj pbar) [0..<k])),
          addConstrs m (concat (map (linf_row_constrs z pbar) [0..<k])))"
    using Suc.IH lt by (simp add: srect_linf_actions_append)
  also have "\<dots> = Inr (yindex pbar (Suc k) 0,
          le_add (le_add obj (le_sum (map (l1_row_obj pbar) [0..<k]))) (l1_row_obj pbar k),
          addConstrs (addConstrs m (concat (map (linf_row_constrs z pbar) [0..<k])))
             (linf_row_constrs z pbar k))"
    by (simp only: one)
  also have "\<dots> = Inr (yindex pbar (Suc k) 0,
          le_add obj (le_sum (map (l1_row_obj pbar) [0..<Suc k])),
          addConstrs m (concat (map (linf_row_constrs z pbar) [0..<Suc k])))"
    by (simp add: le_sum_append le_sum_Cons le_sum_Nil le_add_zero_right le_add_assoc
        addConstrs_addConstrs)
  finally show ?case .
qed

lemma srect_linf_build_closed:
  assumes "rows_cover pbar z" "w = [] \<or> length w = length z"
  shows "srect_linf_build z pbar kappa w = Inr (linf_model z pbar kappa)"
proof -
  have len: "length pbar = length z" using assms(1) by (rule rows_cover_length)
  show ?thesis
    unfolding srect_linf_build_def Let_def srect_vars_eq
    using len assms(2)
    by (auto simp add: addConstr_addConstrs
        srect_linf_actions_upt[OF assms(1)] le_add_zero_left linf_model_def
        addConstrs_def setObjective_def sum_constr_def)
qed

lemma srect_l1_states_Inr:
  "srect_l1_states z pbar w a ss st = Inr st' \<Longrightarrow>
     \<forall>s\<in>set ss. s < length (z ! a) \<and> (w = [] \<or> s < length (w ! a))"
proof (induction ss arbitrary: st)
  case Nil
  show ?case by simp
next
  case (Cons s ss)
  obtain i obj m where st: "st = (i, obj, m)" by (cases st)
  from Cons.prems have a: "s < length (z ! a)" and b: "w = [] \<or> s < length (w ! a)"
    and "\<exists>st1. srect_l1_states z pbar w a ss st1 = Inr st'"
    unfolding st by (auto simp: Let_def split: if_splits)
  then obtain st1 where "srect_l1_states z pbar w a ss st1 = Inr st'" by blast
  from Cons.IH[OF this] a b show ?case by simp
qed

lemma srect_l1_actions_Inr:
  "srect_l1_actions z pbar w sc as st = Inr st' \<Longrightarrow>
     \<forall>a\<in>set as. sc ! a \<le> length (z ! a) \<and> (w = [] \<or> sc ! a \<le> length (w ! a))"
proof (induction as arbitrary: st)
  case Nil
  show ?case by simp
next
  case (Cons a as)
  obtain i obj m where st: "st = (i, obj, m)" by (cases st)
  from Cons.prems obtain st1 where
    1: "srect_l1_states z pbar w a [0..<sc ! a] (i, le_add obj (le_var (X a)), m) = Inr st1"
    and 2: "srect_l1_actions z pbar w sc as st1 = Inr st'"
    unfolding st by (auto split: sum.splits)
  have "\<forall>s<sc ! a. s < length (z ! a) \<and> (w = [] \<or> s < length (w ! a))"
    using srect_l1_states_Inr[OF 1] by simp
  then have "sc ! a \<le> length (z ! a) \<and> (w = [] \<or> sc ! a \<le> length (w ! a))"
    by (metis not_le_imp_less order.refl less_irrefl_nat)
  then show ?case using Cons.IH[OF 2] by simp
qed

lemma rows_coverI:
  "length pbar = length z \<Longrightarrow> \<forall>a<length pbar. length (pbar ! a) \<le> length (z ! a) \<Longrightarrow>
     rows_cover pbar z"
  by (simp add: rows_cover_def list_all2_conv_all_nth)

lemma srect_l1_build_Inr:
  assumes "srect_l1_build z pbar kappa w policy_eval = Inr m"
  shows "rows_cover pbar z \<and> (w = [] \<or> rows_cover pbar w) \<and>
     (policy_eval = [] \<or> length policy_eval = length z \<and> is_probability_dist policy_eval)"
proof -
  from assms have len: "length pbar = length z" and lenw: "w = [] \<or> length w = length z"
    and pe: "policy_eval = [] \<or> length policy_eval = length z \<and> is_probability_dist policy_eval"
    unfolding srect_l1_build_def by (auto simp: Let_def split: if_splits)
  from assms len lenw pe obtain m0 st' where
    "srect_l1_actions z pbar w (map length pbar) [0..<length pbar] (0, le_zero, m0) = Inr st'"
    unfolding srect_l1_build_def by (auto simp: Let_def split: if_splits sum.splits)
  from srect_l1_actions_Inr[OF this]
  have *: "\<forall>a<length pbar. length (pbar ! a) \<le> length (z ! a) \<and> (w = [] \<or> length (pbar ! a) \<le> length (w ! a))"
    by simp
  have "rows_cover pbar z" using len * by (intro rows_coverI) auto
  moreover have "w = [] \<or> rows_cover pbar w"
    using lenw len * by (auto intro!: rows_coverI)
  ultimately show ?thesis using pe by simp
qed

lemma srect_l1_build_iff:
  "srect_l1_build z pbar kappa w policy_eval = Inr m \<longleftrightarrow>
     rows_cover pbar z \<and> (w = [] \<or> rows_cover pbar w) \<and>
     (policy_eval = [] \<or> length policy_eval = length z \<and> is_probability_dist policy_eval) \<and>
     m = l1_model z pbar kappa w policy_eval"
  using srect_l1_build_Inr[of z pbar kappa w policy_eval m]
    srect_l1_build_closed[of pbar z w policy_eval kappa]
  by auto

lemma srect_linf_states_Inr:
  "srect_linf_states z pbar a ss st = Inr st' \<Longrightarrow> \<forall>s\<in>set ss. s < length (z ! a)"
proof (induction ss arbitrary: st)
  case Nil
  show ?case by simp
next
  case (Cons s ss)
  obtain i obj m zd where st: "st = (i, obj, m, zd)" by (cases st)
  from Cons.prems have a: "s < length (z ! a)"
    and "\<exists>st1. srect_linf_states z pbar a ss st1 = Inr st'"
    unfolding st by (auto simp: Let_def split: if_splits)
  then obtain st1 where "srect_linf_states z pbar a ss st1 = Inr st'" by blast
  from Cons.IH[OF this] a show ?case by simp
qed

lemma srect_linf_actions_Inr:
  "srect_linf_actions z pbar sc as st = Inr st' \<Longrightarrow> \<forall>a\<in>set as. sc ! a \<le> length (z ! a)"
proof (induction as arbitrary: st)
  case Nil
  show ?case by simp
next
  case (Cons a as)
  obtain i obj m where st: "st = (i, obj, m)" by (cases st)
  from Cons.prems obtain st1 st2 where
    1: "srect_linf_states z pbar a [0..<sc ! a] (i, le_add obj (le_var (X a)), m, le_zero) = Inr st1"
    and 2: "srect_linf_actions z pbar sc as st2 = Inr st'"
    unfolding st by (auto simp: Let_def split: sum.splits prod.splits)
  have "\<forall>s<sc ! a. s < length (z ! a)"
    using srect_linf_states_Inr[OF 1] by simp
  then have "sc ! a \<le> length (z ! a)"
    by (metis not_le_imp_less less_irrefl_nat)
  then show ?case using Cons.IH[OF 2] by simp
qed

lemma srect_linf_build_Inr:
  assumes "srect_linf_build z pbar kappa w = Inr m"
  shows "rows_cover pbar z \<and> (w = [] \<or> length w = length z)"
proof -
  from assms have len: "length pbar = length z" and lenw: "w = [] \<or> length w = length z"
    unfolding srect_linf_build_def by (auto simp: Let_def split: if_splits)
  from assms len lenw obtain m0 st' where
    "srect_linf_actions z pbar (map length pbar) [0..<length pbar] (0, le_zero, m0) = Inr st'"
    unfolding srect_linf_build_def by (auto simp: Let_def split: if_splits sum.splits)
  from srect_linf_actions_Inr[OF this]
  have *: "\<forall>a<length pbar. length (pbar ! a) \<le> length (z ! a)"
    by simp
  have "rows_cover pbar z" using len * by (intro rows_coverI) auto
  then show ?thesis using lenw by simp
qed

lemma srect_linf_build_iff:
  "srect_linf_build z pbar kappa w = Inr m \<longleftrightarrow>
     rows_cover pbar z \<and> (w = [] \<or> length w = length z) \<and> m = linf_model z pbar kappa"
  using srect_linf_build_Inr[of z pbar kappa w m]
    srect_linf_build_closed[of pbar z w kappa]
  by auto

section \<open>The value of an expression; feasibility in the two models\<close>

lemma le_eval_zero: "le_eval v le_zero = 0"
  by (simp add: le_zero_def)

lemma le_eval_var: "le_eval v (le_var x) = v x"
  by (simp add: le_var_def)

lemma le_eval_const: "le_eval v (le_const c) = c"
  by (simp add: le_const_def)

lemma le_eval_scale: "le_eval v (le_scale k e) = k * le_eval v e"
proof (cases e)
  case (LinExpr ts c)
  have "(\<Sum>(q, x) \<leftarrow> map (\<lambda>(q, x). (k * q, x)) ts. q * v x) = k * (\<Sum>(q, x) \<leftarrow> ts. q * v x)"
    by (induction ts) (auto simp: algebra_simps)
  with LinExpr show ?thesis by (simp add: algebra_simps)
qed

lemma le_eval_neg: "le_eval v (le_neg e) = - le_eval v e"
  by (simp add: le_neg_def le_eval_scale)

lemma le_eval_add: "le_eval v (le_add e f) = le_eval v e + le_eval v f"
  by (cases e; cases f) simp

lemma le_eval_sub: "le_eval v (le_sub e f) = le_eval v e - le_eval v f"
  by (simp add: le_sub_def le_eval_add le_eval_neg)

lemma le_eval_sum: "le_eval v (le_sum es) = (\<Sum>e\<leftarrow>es. le_eval v e)"
  by (induction es) (simp_all add: le_sum_Nil le_sum_Cons le_eval_zero le_eval_add)

lemmas le_eval_simps = le_eval_zero le_eval_var le_eval_const le_eval_scale le_eval_neg
  le_eval_add le_eval_sub le_eval_sum

lemma sum_list_upt: "(\<Sum>a\<leftarrow>[0..<n]. f a) = (\<Sum>a<n. f a)"
  by (simp add: interv_sum_list_conv_sum_set_nat atLeast0LessThan)

lemma le_eval_addTerms_ones:
  "le_eval v (le_addTerms (replicate n 1) (map D [0..<n])) = (\<Sum>a<n. v (D a))"
proof -
  have "zip (replicate n (1::real)) (map D [0..<n]) = map (\<lambda>a. (1, D a)) [0..<n]"
    by (rule nth_equalityI) auto
  then have "le_eval v (le_addTerms (replicate n 1) (map D [0..<n])) = (\<Sum>a\<leftarrow>[0..<n]. v (D a))"
    by (simp add: le_addTerms_def comp_def)
  then show ?thesis by (simp only: sum_list_upt)
qed

lemma le_eval_obj_pair:
  "le_eval v (obj_pair pbar a s i) = pbar ! a ! s * (v (YN i) - v (YP i))"
  by (simp add: obj_pair_def le_eval_simps algebra_simps)

lemma le_eval_l1_row_obj:
  "le_eval v (l1_row_obj pbar a) =
     v (X a) + (\<Sum>s<length (pbar ! a). pbar ! a ! s * (v (YN (yindex pbar a s)) - v (YP (yindex pbar a s))))"
  by (simp add: l1_row_obj_def le_eval_simps le_eval_obj_pair comp_def sum_list_upt)

lemma le_eval_srect_objective:
  "le_eval v (le_add (le_sum (map (l1_row_obj pbar) [0..<length pbar]))
        (le_scale kappa (le_neg (le_var Lambda)))) =
     (\<Sum>a<length pbar. v (X a) +
        (\<Sum>s<length (pbar ! a). pbar ! a ! s * (v (YN (yindex pbar a s)) - v (YP (yindex pbar a s)))))
     - kappa * v Lambda"
  by (simp add: le_eval_simps le_eval_l1_row_obj comp_def sum_list_upt)

lemma constr_holds_P:
  "constr_holds v (P_constr z a s i) \<longleftrightarrow> v (X a) - v (YP i) + v (YN i) \<le> z ! a ! s * v (D a)"
  by (simp add: constr_holds_def P_constr_def le_eval_simps)

lemma constr_holds_psi:
  "constr_holds v (psi_constr w a s i) \<longleftrightarrow>
     - (v Lambda) * (if w = [] then 1 else w ! a ! s) + v (YP i) + v (YN i) \<le> 0"
  by (simp add: constr_holds_def psi_constr_def le_eval_simps mult.commute)

lemma le_eval_y_pair: "le_eval v (y_pair i) = v (YP i) + v (YN i)"
  by (simp add: y_pair_def le_eval_simps)

lemma constr_holds_theta:
  "constr_holds v (theta_constr pbar a) \<longleftrightarrow>
     - (v Lambda) * 1 + (\<Sum>s<length (pbar ! a). v (YP (yindex pbar a s)) + v (YN (yindex pbar a s))) \<le> 0"
  by (simp add: constr_holds_def theta_constr_def le_eval_simps le_eval_y_pair comp_def sum_list_upt)

lemma constr_holds_pin: "constr_holds v (pin_constr pe i) \<longleftrightarrow> v (D i) = pe ! i"
  by (simp add: constr_holds_def pin_constr_def le_eval_simps)

lemma constr_holds_sum: "constr_holds v (sum_constr n nm) \<longleftrightarrow> (\<Sum>a<n. v (D a)) = 1"
  by (simp add: constr_holds_def sum_constr_def le_eval_const le_eval_addTerms_ones)

lemma list_all_upt: "list_all P [0..<n] \<longleftrightarrow> (\<forall>i<n. P i)"
  by (auto simp: list_all_iff)

lemma list_all_concat: "list_all P (concat xss) \<longleftrightarrow> list_all (list_all P) xss"
  by (induction xss) simp_all

lemma vars_ok_srect_vars:
  "list_all (var_ok v) (srect_vars pbar) \<longleftrightarrow>
     (\<forall>i<sum_list (map length pbar). 0 \<le> v (YP i) \<and> 0 \<le> v (YN i)) \<and> 0 \<le> v Lambda \<and>
     (\<forall>a<length pbar. 0 \<le> v (D a))"
  by (simp add: srect_vars_def list.pred_map comp_def var_ok_def list_all_upt) blast

lemma feasible_l1_model:
  "feasible (l1_model z pbar kappa w pe) v \<longleftrightarrow>
     (\<forall>i<sum_list (map length pbar). 0 \<le> v (YP i) \<and> 0 \<le> v (YN i)) \<and> 0 \<le> v Lambda \<and>
     (\<forall>a<length pbar. 0 \<le> v (D a)) \<and>
     (if pe \<noteq> [] then \<forall>i<length pe. v (D i) = pe ! i else (\<Sum>a<length pbar. v (D a)) = 1) \<and>
     (\<forall>a<length pbar. \<forall>s<length (pbar ! a).
        v (X a) - v (YP (yindex pbar a s)) + v (YN (yindex pbar a s)) \<le> z ! a ! s * v (D a) \<and>
        - (v Lambda) * (if w = [] then 1 else w ! a ! s)
          + v (YP (yindex pbar a s)) + v (YN (yindex pbar a s)) \<le> 0)"
  unfolding feasible_def l1_model_def
  by (simp add: vars_ok_srect_vars l1_policy_constrs_def l1_row_constrs_def list_all_concat
      list.pred_map comp_def list_all_upt
      constr_holds_P constr_holds_psi constr_holds_pin constr_holds_sum)

lemma feasible_linf_model:
  "feasible (linf_model z pbar kappa) v \<longleftrightarrow>
     (\<forall>i<sum_list (map length pbar). 0 \<le> v (YP i) \<and> 0 \<le> v (YN i)) \<and> 0 \<le> v Lambda \<and>
     (\<forall>a<length pbar. 0 \<le> v (D a)) \<and>
     (\<Sum>a<length pbar. v (D a)) = 1 \<and>
     (\<forall>a<length pbar.
        (\<forall>s<length (pbar ! a).
           v (X a) - v (YP (yindex pbar a s)) + v (YN (yindex pbar a s)) \<le> z ! a ! s * v (D a)) \<and>
        - (v Lambda) * 1
          + (\<Sum>s<length (pbar ! a). v (YP (yindex pbar a s)) + v (YN (yindex pbar a s))) \<le> 0)"
  unfolding feasible_def linf_model_def
  by (simp add: vars_ok_srect_vars linf_row_constrs_def list_all_concat
      list.pred_map comp_def list_all_upt
      constr_holds_P constr_holds_theta constr_holds_sum) blast

section \<open>Reading the solution back\<close>

lemma fold_push_back:
  "fold (\<lambda>j b. if P j then b @ [f j] else b) js acc = acc @ map f (filter P js)"
  by (induction js arbitrary: acc) simp_all

lemma srect_linf_budgets_closed:
  "idx + length (filter (\<lambda>j. c_name (m_constrs m ! j) = ''theta'') js) \<le> length b \<Longrightarrow>
   srect_linf_budgets m duals js (b, idx) =
     Inr (take idx b @ map duals (filter (\<lambda>j. c_name (m_constrs m ! j) = ''theta'') js) @
            drop (idx + length (filter (\<lambda>j. c_name (m_constrs m ! j) = ''theta'') js)) b,
          idx + length (filter (\<lambda>j. c_name (m_constrs m ! j) = ''theta'') js))"
proof (induction js arbitrary: b idx)
  case Nil
  show ?case by simp
next
  case (Cons j js)
  show ?case
  proof (cases "c_name (m_constrs m ! j) = ''theta''")
    case True
    with Cons.prems have lt: "idx < length b"
      and le: "Suc idx + length (filter (\<lambda>j. c_name (m_constrs m ! j) = ''theta'') js) \<le> length (b[idx := duals j])"
      by simp_all
    have t: "take (Suc idx) (b[idx := duals j]) = take idx b @ [duals j]"
      using lt by (simp add: take_Suc_conv_app_nth)
    show ?thesis
      using True lt by (simp add: Cons.IH[OF le] t del: list_update.simps)
  next
    case False
    with Cons.prems Cons.IH[of idx b] show ?thesis by simp
  qed
qed

lemma filter_index_length:
  "length (filter (\<lambda>j. P (cs ! j)) [0..<length cs]) = length (filter P cs)"
proof -
  have "map (\<lambda>j. cs ! j) (filter (\<lambda>j. P (cs ! j)) [0..<length cs]) = filter P (map (\<lambda>j. cs ! j) [0..<length cs])"
    by (simp add: filter_map comp_def)
  also have "\<dots> = filter P cs" by (simp add: map_nth)
  finally have "length (map (\<lambda>j. cs ! j) (filter (\<lambda>j. P (cs ! j)) [0..<length cs])) = length (filter P cs)"
    by simp
  then show ?thesis by simp
qed

lemma map_length_nth: "map (\<lambda>a. length (pbar ! a)) [0..<length pbar] = map length pbar"
  by (rule nth_equalityI) simp_all

lemma filter_concat: "filter P (concat xss) = concat (map (filter P) xss)"
  by (induction xss) simp_all

lemma length_concat_rows:
  "length (concat (map (\<lambda>a. map (f a) [0..<length (pbar ! a)]) [0..<length pbar])) =
     sum_list (map length pbar)"
  by (simp add: length_concat comp_def map_length_nth)

lemma psi_of_l1_model:
  "filter (\<lambda>c. c_name c = ''psi'') (m_constrs (l1_model z pbar kappa w pe)) =
     concat (map (\<lambda>a. map (\<lambda>s. psi_constr w a s (yindex pbar a s)) [0..<length (pbar ! a)])
       [0..<length pbar])"
proof -
  have 1: "filter (\<lambda>c. c_name c = ''psi'') (l1_policy_constrs pe n) = []" for n
    by (simp add: l1_policy_constrs_def pin_constr_def sum_constr_def filter_empty_conv)
  have 2: "filter (\<lambda>c. c_name c = ''psi'') (l1_row_constrs z pbar w a) =
      map (\<lambda>s. psi_constr w a s (yindex pbar a s)) [0..<length (pbar ! a)]" for a
    unfolding l1_row_constrs_def
    by (induction "length (pbar ! a)") (simp_all add: filter_concat comp_def P_constr_def psi_constr_def)
  show ?thesis
    by (simp add: l1_model_def 1 filter_concat comp_def 2)
qed

lemma theta_of_linf_model:
  "filter (\<lambda>c. c_name c = ''theta'') (m_constrs (linf_model z pbar kappa)) =
     map (theta_constr pbar) [0..<length pbar]"
proof -
  have 2: "filter (\<lambda>c. c_name c = ''theta'') (linf_row_constrs z pbar a) = [theta_constr pbar a]" for a
    by (simp add: linf_row_constrs_def filter_empty_conv P_constr_def theta_constr_def)
  have 3: "concat (map (\<lambda>a. [f a]) xs) = map f xs" for f :: "nat \<Rightarrow> grb_constr" and xs
    by (induction xs) simp_all
  show ?thesis
    by (simp add: linf_model_def filter_concat comp_def 2 3 sum_constr_def)
qed

lemma srect_l1_extract_Inr:
  "srect_l1_extract n m r = Inr (obj, policy, budgets) \<longleftrightarrow>
     r_status r = OPTIMAL \<and>
     (\<exists>sol. r_solution r = Some sol \<and> obj = sol_ObjVal sol \<and>
        policy = map (\<lambda>i. sol_X sol (D i)) [0..<n] \<and>
        budgets = map (sol_Pi sol)
          (filter (\<lambda>j. c_name (m_constrs m ! j) = ''psi'') [0..<length (m_constrs m)]))"
  by (auto simp: srect_l1_extract_def Let_def fold_push_back split: option.splits)

lemma srect_linf_extract_Inr:
  assumes "length (filter (\<lambda>c. c_name c = ''theta'') (m_constrs m)) = n"
  shows "srect_linf_extract n m r = Inr (obj, policy, budgets) \<longleftrightarrow>
     (\<exists>sol. r_solution r = Some sol \<and> obj = sol_ObjVal sol \<and>
        policy = map (\<lambda>i. sol_X sol (D i)) [0..<n] \<and>
        budgets = map (sol_Pi sol)
          (filter (\<lambda>j. c_name (m_constrs m ! j) = ''theta'') [0..<length (m_constrs m)]))"
proof -
  have len: "length (filter (\<lambda>j. c_name (m_constrs m ! j) = ''theta'') [0..<length (m_constrs m)]) = n"
    using assms filter_index_length[of "\<lambda>c. c_name c = ''theta''" "m_constrs m"] by simp
  have "srect_linf_budgets m duals [0..<length (m_constrs m)] (replicate n 0, 0) =
     Inr (map duals (filter (\<lambda>j. c_name (m_constrs m ! j) = ''theta'') [0..<length (m_constrs m)]), n)" for duals
    using srect_linf_budgets_closed[of 0 m "[0..<length (m_constrs m)]" "replicate n 0" duals]
    by (simp add: len)
  then show ?thesis
    by (auto simp: srect_linf_extract_def Let_def split: option.splits)
qed

section \<open>The checks on the input (claim C4)\<close>

lemma srect_l1_states_Inl: "srect_l1_states z pbar w a ss st = Inl e \<Longrightarrow> e = OutOfRange"
proof (induction ss arbitrary: st)
  case Nil
  then show ?case by simp
next
  case (Cons s ss)
  obtain i obj m where st: "st = (i, obj, m)" by (cases st)
  from Cons.prems have "e = OutOfRange \<or> (\<exists>st1. srect_l1_states z pbar w a ss st1 = Inl e)"
    unfolding st by (auto simp: Let_def split: if_splits)
  then show ?case using Cons.IH by blast
qed

lemma srect_l1_actions_Inl: "srect_l1_actions z pbar w sc as st = Inl e \<Longrightarrow> e = OutOfRange"
proof (induction as arbitrary: st)
  case Nil
  then show ?case by simp
next
  case (Cons a as)
  obtain i obj m where st: "st = (i, obj, m)" by (cases st)
  from Cons.prems have
    "(\<exists>st0. srect_l1_states z pbar w a [0..<sc ! a] st0 = Inl e) \<or>
     (\<exists>st1. srect_l1_actions z pbar w sc as st1 = Inl e)"
    unfolding st by (auto split: sum.splits)
  then show ?case using Cons.IH srect_l1_states_Inl by blast
qed

lemma srect_linf_states_Inl: "srect_linf_states z pbar a ss st = Inl e \<Longrightarrow> e = OutOfRange"
proof (induction ss arbitrary: st)
  case Nil
  then show ?case by simp
next
  case (Cons s ss)
  obtain i obj m zd where st: "st = (i, obj, m, zd)" by (cases st)
  from Cons.prems have "e = OutOfRange \<or> (\<exists>st1. srect_linf_states z pbar a ss st1 = Inl e)"
    unfolding st by (auto simp: Let_def split: if_splits)
  then show ?case using Cons.IH by blast
qed

lemma srect_linf_actions_Inl: "srect_linf_actions z pbar sc as st = Inl e \<Longrightarrow> e = OutOfRange"
proof (induction as arbitrary: st)
  case Nil
  then show ?case by simp
next
  case (Cons a as)
  obtain i obj m where st: "st = (i, obj, m)" by (cases st)
  from Cons.prems have
    "(\<exists>st0. srect_linf_states z pbar a [0..<sc ! a] st0 = Inl e) \<or>
     (\<exists>st1. srect_linf_actions z pbar sc as st1 = Inl e)"
    unfolding st by (auto simp: Let_def split: sum.splits prod.splits)
  then show ?case using Cons.IH srect_linf_states_Inl by blast
qed

lemma srect_l1_build_Inl:
  assumes "srect_l1_build z pbar kappa w pe = Inl e"
  shows "e = AssertionFailed \<and>
           (length pbar \<noteq> length z \<or> (w \<noteq> [] \<and> length w \<noteq> length z) \<or>
            (pe \<noteq> [] \<and> (length pe \<noteq> length z \<or> \<not> is_probability_dist pe))) \<or>
         e = OutOfRange \<and>
           \<not> (length pbar \<noteq> length z \<or> (w \<noteq> [] \<and> length w \<noteq> length z) \<or>
            (pe \<noteq> [] \<and> (length pe \<noteq> length z \<or> \<not> is_probability_dist pe)))"
proof (cases "length pbar \<noteq> length z \<or> (w \<noteq> [] \<and> length w \<noteq> length z) \<or>
            (pe \<noteq> [] \<and> (length pe \<noteq> length z \<or> \<not> is_probability_dist pe))")
  case True
  with assms show ?thesis
    unfolding srect_l1_build_def by (auto simp: Let_def split: if_splits)
next
  case False
  with assms obtain m0 where
    "srect_l1_actions z pbar w (map length pbar) [0..<length pbar] (0, le_zero, m0) = Inl e"
    unfolding srect_l1_build_def by (auto simp: Let_def split: if_splits sum.splits)
  then have "e = OutOfRange" by (rule srect_l1_actions_Inl)
  with False show ?thesis by blast
qed

lemma srect_linf_build_Inl:
  assumes "srect_linf_build z pbar kappa w = Inl e"
  shows "e = AssertionFailed \<and> (length pbar \<noteq> length z \<or> (w \<noteq> [] \<and> length w \<noteq> length z)) \<or>
         e = OutOfRange \<and> \<not> (length pbar \<noteq> length z \<or> (w \<noteq> [] \<and> length w \<noteq> length z))"
proof (cases "length pbar \<noteq> length z \<or> (w \<noteq> [] \<and> length w \<noteq> length z)")
  case True
  with assms show ?thesis
    unfolding srect_linf_build_def by (auto simp: Let_def split: if_splits)
next
  case False
  with assms obtain m0 where
    "srect_linf_actions z pbar (map length pbar) [0..<length pbar] (0, le_zero, m0) = Inl e"
    unfolding srect_linf_build_def by (auto simp: Let_def split: if_splits sum.splits)
  then have "e = OutOfRange" by (rule srect_linf_actions_Inl)
  with False show ?thesis by blast
qed

lemma rows_cover_lengths:
  "rows_cover pbar z \<Longrightarrow> rows_cover pbar w \<Longrightarrow> length w = length z"
  by (metis rows_cover_length)

text \<open>
  Claim C4, as the code has it.  The only checks on the input are assertions.  Both
  builders stop with a failed assertion exactly when \<open>pbar\<close> and \<open>z\<close> differ in
  length or a non-empty \<open>w\<close> differs in length from \<open>z\<close>; the L1 builder also when a
  non-empty \<open>policy_eval\<close> differs in length from \<open>z\<close> or is rejected by
  \<open>is_probability_dist\<close>.  Past the assertions, a row of \<open>z\<close> (or of \<open>w\<close>, L1 only)
  shorter than the row of \<open>pbar\<close> is read out of range; otherwise the model is built.
  Neither the rows of \<open>pbar\<close> nor \<open>kappa\<close> are examined.
\<close>

theorem srect_build_checks:
  "srect_l1_build z pbar kappa w policy_eval =
     (if length pbar \<noteq> length z \<or> (w \<noteq> [] \<and> length w \<noteq> length z) \<or>
         (policy_eval \<noteq> [] \<and>
            (length policy_eval \<noteq> length z \<or> \<not> is_probability_dist policy_eval))
      then Inl AssertionFailed
      else if \<not> (rows_cover pbar z \<and> (w = [] \<or> rows_cover pbar w)) then Inl OutOfRange
      else Inr (l1_model z pbar kappa w policy_eval)) \<and>
   srect_linf_build z pbar kappa w =
     (if length pbar \<noteq> length z \<or> (w \<noteq> [] \<and> length w \<noteq> length z)
      then Inl AssertionFailed
      else if \<not> rows_cover pbar z then Inl OutOfRange
      else Inr (linf_model z pbar kappa))"
proof
  show "srect_l1_build z pbar kappa w policy_eval =
     (if length pbar \<noteq> length z \<or> (w \<noteq> [] \<and> length w \<noteq> length z) \<or>
         (policy_eval \<noteq> [] \<and>
            (length policy_eval \<noteq> length z \<or> \<not> is_probability_dist policy_eval))
      then Inl AssertionFailed
      else if \<not> (rows_cover pbar z \<and> (w = [] \<or> rows_cover pbar w)) then Inl OutOfRange
      else Inr (l1_model z pbar kappa w policy_eval))"
  proof (cases "srect_l1_build z pbar kappa w policy_eval")
    case (Inl e)
    from srect_l1_build_Inl[OF Inl] srect_l1_build_closed[of pbar z w policy_eval kappa] Inl
    show ?thesis by (auto dest: rows_cover_length rows_cover_lengths)
  next
    case (Inr m)
    then show ?thesis
      using srect_l1_build_Inr[OF Inr] srect_l1_build_closed[of pbar z w policy_eval kappa]
      by (auto dest: rows_cover_length rows_cover_lengths)
  qed
  show "srect_linf_build z pbar kappa w =
     (if length pbar \<noteq> length z \<or> (w \<noteq> [] \<and> length w \<noteq> length z)
      then Inl AssertionFailed
      else if \<not> rows_cover pbar z then Inl OutOfRange
      else Inr (linf_model z pbar kappa))"
  proof (cases "srect_linf_build z pbar kappa w")
    case (Inl e)
    from srect_linf_build_Inl[OF Inl] srect_linf_build_closed[of pbar z w kappa] Inl
    show ?thesis by (auto dest: rows_cover_length)
  next
    case (Inr m)
    then show ?thesis
      using srect_linf_build_Inr[OF Inr] srect_linf_build_closed[of pbar z w kappa]
      by (auto dest: rows_cover_length)
  qed
qed

lemma rows_cover_simps:
  "rows_cover [] [] = True"
  "rows_cover (p # ps) (r # rs) = (length p \<le> length r \<and> rows_cover ps rs)"
  "rows_cover (p # ps) [] = False"
  "rows_cover [] (r # rs) = False"
  by (simp_all add: rows_cover_def)

text \<open>Two inputs that are stopped: one by an assertion, one by a read out of range.\<close>

theorem srect_build_checks_witness:
  "srect_l1_build [[1, 0]] [[1/2, 1/2], [1/2, 1/2]] 0 [] [] = Inl AssertionFailed \<and>
   srect_linf_build [[1], [1]] [[1/2, 1/2], [1]] 0 [] = Inl OutOfRange"
  using srect_build_checks[of "[[1, 0]]" "[[1/2, 1/2], [1/2, 1/2]]" 0 "[]" "[]"]
    srect_build_checks[of "[[1], [1]]" "[[1/2, 1/2], [1]]" 0 "[]" "[]"]
  by (simp add: rows_cover_simps)

text \<open>
  Claim C4 as stated fails: with \<open>pbar = [[0.5, 0.4], [0.5, 0.5]]\<close>, whose first row sums
  to 0.9 and is not a probability distribution, both builders return a model; so does the
  L1 builder for \<open>kappa = -1\<close>.
\<close>

theorem srect_build_accepts_invalid_pbar:
  "\<not> is_probability_dist [1/2, 2/5] \<and>
   srect_l1_build [[1, 0], [0, 1]] [[1/2, 2/5], [1/2, 1/2]] 0 [] [] =
     Inr (l1_model [[1, 0], [0, 1]] [[1/2, 2/5], [1/2, 1/2]] 0 [] []) \<and>
   srect_linf_build [[1, 0], [0, 1]] [[1/2, 2/5], [1/2, 1/2]] 0 [] =
     Inr (linf_model [[1, 0], [0, 1]] [[1/2, 2/5], [1/2, 1/2]] 0) \<and>
   srect_l1_build [[1]] [[1]] (- 1) [] [] = Inr (l1_model [[1]] [[1]] (- 1) [] [])"
  by (simp add: srect_l1_build_closed srect_linf_build_closed rows_cover_simps EPSILON_def)

section \<open>The test for a probability distribution (claim C10)\<close>

text \<open>
  Claim C10.  There is a sequence whose first entry is negative and whose entries sum
  to one that \<open>is_probability_dist\<close> accepts, for instance \<open>[-0.5, 1.5]\<close>: the test for a
  negative entry starts with the second element.  Given as \<open>policy_eval\<close>, it passes the
  assertion of the L1 builder, which returns a model.
\<close>

theorem is_probability_dist_negative_first:
  "(\<exists>p. p \<noteq> [] \<and> hd p < 0 \<and> \<bar>sum_list p - 1\<bar> < EPSILON \<and> is_probability_dist p) \<and>
   is_probability_dist [- 1/2, 3/2] \<and>
   (\<exists>m. srect_l1_build [[1, 0], [0, 1]] [[1/2, 1/2], [1/2, 1/2]] 0 [] [- 1/2, 3/2] = Inr m)"
proof -
  have 1: "is_probability_dist [- 1/2, 3/2]" by (simp add: EPSILON_def)
  have 2: "[- 1/2, 3/2 :: real] \<noteq> [] \<and> hd [- 1/2, 3/2 :: real] < 0 \<and>
      \<bar>sum_list [- 1/2, 3/2 :: real] - 1\<bar> < EPSILON"
    by (simp add: EPSILON_def)
  have 3: "srect_l1_build [[1, 0], [0, 1]] [[1/2, 1/2], [1/2, 1/2]] 0 [] [- 1/2, 3/2] =
      Inr (l1_model [[1, 0], [0, 1]] [[1/2, 1/2], [1/2, 1/2]] 0 [] [- 1/2, 3/2])"
    by (rule srect_l1_build_closed) (simp_all add: rows_cover_simps EPSILON_def)
  from 1 2 3 show ?thesis by blast
qed

section \<open>The objective of the L1 model (claim C1)\<close>

lemma yindex_less:
  assumes "a < length pbar" "s < length (pbar ! a)"
  shows "yindex pbar a s < sum_list (map length pbar)"
proof -
  have "pbar = take a pbar @ pbar ! a # drop (Suc a) pbar"
    using assms(1) by (rule id_take_nth_drop)
  then have "sum_list (map length pbar) =
      sum_list (map length (take a pbar @ pbar ! a # drop (Suc a) pbar))" by simp
  also have "\<dots> = sum_list (map length (take a pbar)) + length (pbar ! a) +
      sum_list (map length (drop (Suc a) pbar))" by simp
  finally show ?thesis using assms(2) by (simp add: yindex_def)
qed

text \<open>
  Claim C1, as the code has it.  The L1 model is a maximisation, and under every
  assignment of the variables its objective is the sum of the \<open>x[a]\<close>, plus the sum over
  all pairs of \<open>pbar[a][s] * (yn - yp)\<close> at the position of the pair, minus
  \<open>kappa * lambda\<close>; \<open>yp\<close>, \<open>yn\<close> and \<open>lambda\<close> are non-negative in every feasible
  assignment.  (\<open>yp\<close> is the specification's y+ and \<open>yn\<close> its y-.)
\<close>

theorem srect_l1_objective:
  assumes "srect_l1_build z pbar kappa w policy_eval = Inr m"
  shows "m_modelsense m = MAXIMIZE \<and>
     le_eval v (m_objective m) =
       (\<Sum>a<length pbar. v (X a)) +
       (\<Sum>a<length pbar. \<Sum>s<length (pbar ! a).
          pbar ! a ! s * (v (YN (yindex pbar a s)) - v (YP (yindex pbar a s))))
       - kappa * v Lambda \<and>
     (feasible m v \<longrightarrow>
        0 \<le> v Lambda \<and>
        (\<forall>a<length pbar. \<forall>s<length (pbar ! a).
           0 \<le> v (YP (yindex pbar a s)) \<and> 0 \<le> v (YN (yindex pbar a s))))"
proof -
  from assms have m: "m = l1_model z pbar kappa w policy_eval"
    by (simp add: srect_l1_build_iff)
  have 1: "m_modelsense m = MAXIMIZE" by (simp add: m l1_model_def)
  have "m_objective m = le_add (le_sum (map (l1_row_obj pbar) [0..<length pbar]))
        (le_scale kappa (le_neg (le_var Lambda)))"
    by (simp add: m l1_model_def)
  then have 2: "le_eval v (m_objective m) =
       (\<Sum>a<length pbar. v (X a)) +
       (\<Sum>a<length pbar. \<Sum>s<length (pbar ! a).
          pbar ! a ! s * (v (YN (yindex pbar a s)) - v (YP (yindex pbar a s))))
       - kappa * v Lambda"
    by (simp only: le_eval_srect_objective sum.distrib)
  have 3: "0 \<le> v Lambda \<and>
        (\<forall>a<length pbar. \<forall>s<length (pbar ! a).
           0 \<le> v (YP (yindex pbar a s)) \<and> 0 \<le> v (YN (yindex pbar a s)))"
    if "feasible m v"
    using that unfolding m feasible_l1_model by (auto dest: yindex_less)
  from 1 2 3 show ?thesis by blast
qed

text \<open>
  One action with the returns \<open>[1, 0]\<close>, the nominal probabilities \<open>[0.5, 0.5]\<close> and the
  budget \<open>0.5\<close>: at \<open>x = 0.5\<close>, \<open>yn[0] = 0.5\<close>, \<open>yp[1] = 0.5\<close>, \<open>lambda = 0.5\<close>, \<open>d = 1\<close>
  the assignment is feasible and the objective is \<open>0.25\<close>.
\<close>

theorem srect_l1_objective_witness:
  "\<exists>m. srect_l1_build [[1, 0]] [[1/2, 1/2]] (1/2) [] [] = Inr m \<and>
     m_modelsense m = MAXIMIZE \<and>
     feasible m ((\<lambda>x. 0)(X 0 := 1/2, YN 0 := 1/2, YP 1 := 1/2, Lambda := 1/2, D 0 := 1)) \<and>
     le_eval ((\<lambda>x. 0)(X 0 := 1/2, YN 0 := 1/2, YP 1 := 1/2, Lambda := 1/2, D 0 := 1))
       (m_objective m) = 1/4"
proof -
  have b: "srect_l1_build [[1, 0]] [[1/2, 1/2]] (1/2) [] [] =
      Inr (l1_model [[1, 0]] [[1/2, 1/2]] (1/2) [] [])"
    by (rule srect_l1_build_closed) (simp_all add: rows_cover_simps)
  have f: "feasible (l1_model [[1, 0]] [[1/2, 1/2]] (1/2) [] [])
      ((\<lambda>x. 0)(X 0 := 1/2, YN 0 := 1/2, YP 1 := 1/2, Lambda := 1/2, D 0 := 1))"
    by (simp add: feasible_l1_model yindex_def less_Suc_eq all_conj_distrib numeral_2_eq_2)
  show ?thesis
    using srect_l1_objective[OF b,
        of "(\<lambda>x. 0)(X 0 := 1/2, YN 0 := 1/2, YP 1 := 1/2, Lambda := 1/2, D 0 := 1)"] b f
    by (simp add: yindex_def lessThan_Suc numeral_2_eq_2)
qed

text \<open>
  Claim C1 as stated fails: it gives the term \<open>pbar[a][s] * (y- - y+)\<close> the sign minus,
  the code gives it the sign plus.  For one action with one outcome, \<open>pbar = [[1]]\<close>,
  the objective at \<open>yn[0] = 1\<close> (all other variables zero) is \<open>1\<close>, not \<open>-1\<close>.
\<close>

theorem srect_l1_objective_sign:
  "\<not> (\<forall>z pbar kappa w policy_eval m v.
        srect_l1_build z pbar kappa w policy_eval = Inr m \<longrightarrow>
        le_eval v (m_objective m) =
          (\<Sum>a<length pbar. v (X a)) -
          (\<Sum>a<length pbar. \<Sum>s<length (pbar ! a).
             pbar ! a ! s * (v (YN (yindex pbar a s)) - v (YP (yindex pbar a s))))
          - kappa * v Lambda)"
proof
  assume a: "\<forall>z pbar kappa w policy_eval m v.
        srect_l1_build z pbar kappa w policy_eval = Inr m \<longrightarrow>
        le_eval v (m_objective m) =
          (\<Sum>a<length pbar. v (X a)) -
          (\<Sum>a<length pbar. \<Sum>s<length (pbar ! a).
             pbar ! a ! s * (v (YN (yindex pbar a s)) - v (YP (yindex pbar a s))))
          - kappa * v Lambda"
  have b: "srect_l1_build [[1]] [[1]] 0 [] [] = Inr (l1_model [[1]] [[1]] 0 [] [])"
    by (rule srect_l1_build_closed) (simp_all add: rows_cover_simps)
  have c: "le_eval ((\<lambda>x. 0)(YN 0 := 1)) (m_objective (l1_model [[1]] [[1]] 0 [] [])) = 1"
    by (simp add: l1_model_def le_eval_simps le_eval_l1_row_obj yindex_def)
  from a b have "le_eval ((\<lambda>x. 0)(YN 0 := 1)) (m_objective (l1_model [[1]] [[1]] 0 [] [])) =
      (\<Sum>a<length [[1::real]]. ((\<lambda>x. 0)(YN 0 := 1)) (X a)) -
          (\<Sum>a<length [[1::real]]. \<Sum>s<length ([[1::real]] ! a).
             [[1::real]] ! a ! s * (((\<lambda>x. 0)(YN 0 := 1)) (YN (yindex [[1]] a s)) - ((\<lambda>x. 0)(YN 0 := 1)) (YP (yindex [[1]] a s))))
          - 0 * ((\<lambda>x. 0)(YN 0 := 1)) Lambda"
    by blast
  with c show False by (simp add: yindex_def)
qed

section \<open>The constraints on the policy (claims C5 and C6)\<close>

lemma concat_map_Nil: "(\<And>x. x \<in> set xs \<Longrightarrow> f x = []) \<Longrightarrow> concat (map f xs) = []"
  by (induction xs) simp_all

lemma equal_of_l1_model:
  "filter (\<lambda>c. c_sense c = EQUAL) (m_constrs (l1_model z pbar kappa w pe)) =
     l1_policy_constrs pe (length pbar)"
proof -
  have 1: "filter (\<lambda>c. c_sense c = EQUAL) (l1_policy_constrs pe n) = l1_policy_constrs pe n" for n
    by (simp add: l1_policy_constrs_def pin_constr_def sum_constr_def)
  have 2: "filter (\<lambda>c. c_sense c = EQUAL) (l1_row_constrs z pbar w a) = []" for a
    unfolding l1_row_constrs_def
    by (simp add: filter_concat comp_def P_constr_def psi_constr_def concat_map_Nil)
  show ?thesis
    by (simp add: l1_model_def 1 filter_concat comp_def 2 concat_map_Nil)
qed

lemma equal_of_linf_model:
  "filter (\<lambda>c. c_sense c = EQUAL) (m_constrs (linf_model z pbar kappa)) =
     [sum_constr (length pbar) ''policy'']"
proof -
  have 2: "filter (\<lambda>c. c_sense c = EQUAL) (linf_row_constrs z pbar a) = []" for a
    by (simp add: linf_row_constrs_def filter_empty_conv P_constr_def theta_constr_def)
  show ?thesis
    by (simp add: linf_model_def filter_concat comp_def 2 concat_map_Nil sum_constr_def)
qed

text \<open>
  Claim C5.  The equality constraints of the L1 model are its constraints on the policy
  (every other constraint is an inequality).  When \<open>policy_eval\<close> is empty there is exactly
  one, named \<open>pi\<close>, and it says that the \<open>d[a]\<close> sum to one; when \<open>policy_eval\<close> is given
  there is instead one per action, and it says \<open>d[a] = policy_eval[a]\<close>.  In the second
  case, when the solution exposed by the solver satisfies the model, the returned policy
  is \<open>policy_eval\<close>.
\<close>

theorem srect_l1_policy_constraints:
  assumes "srect_l1_build z pbar kappa w policy_eval = Inr m"
  shows "(policy_eval = [] \<longrightarrow>
            filter (\<lambda>c. c_sense c = EQUAL) (m_constrs m) = [sum_constr (length pbar) ''pi'']) \<and>
         (policy_eval \<noteq> [] \<longrightarrow>
            filter (\<lambda>c. c_sense c = EQUAL) (m_constrs m) =
              map (pin_constr policy_eval) [0..<length pbar]) \<and>
         (constr_holds v (sum_constr (length pbar) ''pi'') \<longleftrightarrow> (\<Sum>a<length pbar. v (D a)) = 1) \<and>
         (\<forall>a. constr_holds v (pin_constr policy_eval a) \<longleftrightarrow> v (D a) = policy_eval ! a) \<and>
         (policy_eval \<noteq> [] \<and>
          (\<forall>sol. r_solution (optimize m) = Some sol \<longrightarrow> feasible m (sol_X sol)) \<and>
          srect_l1_solve_gurobi optimize z pbar kappa w policy_eval = Inr (obj, policy, budgets)
          \<longrightarrow> policy = policy_eval)"
proof -
  from assms have m: "m = l1_model z pbar kappa w policy_eval"
    and pe: "policy_eval = [] \<or> length policy_eval = length z"
    and len: "length pbar = length z"
    by (auto simp: srect_l1_build_iff dest: rows_cover_length)
  have 1: "policy_eval = [] \<longrightarrow>
      filter (\<lambda>c. c_sense c = EQUAL) (m_constrs m) = [sum_constr (length pbar) ''pi'']"
    by (simp add: m equal_of_l1_model l1_policy_constrs_def)
  have 2: "policy_eval \<noteq> [] \<longrightarrow>
      filter (\<lambda>c. c_sense c = EQUAL) (m_constrs m) = map (pin_constr policy_eval) [0..<length pbar]"
    using pe len by (auto simp add: m equal_of_l1_model l1_policy_constrs_def)
  have 3: "policy = policy_eval"
    if ne: "policy_eval \<noteq> []"
      and feas: "\<forall>sol. r_solution (optimize m) = Some sol \<longrightarrow> feasible m (sol_X sol)"
      and ret: "srect_l1_solve_gurobi optimize z pbar kappa w policy_eval = Inr (obj, policy, budgets)"
  proof -
    from ret assms have "srect_l1_extract (length pbar) m (optimize m) = Inr (obj, policy, budgets)"
      by (simp add: srect_l1_solve_gurobi_def)
    then obtain sol where sol: "r_solution (optimize m) = Some sol"
      and pol: "policy = map (\<lambda>i. sol_X sol (D i)) [0..<length pbar]"
      by (auto simp: srect_l1_extract_Inr)
    from feas sol have "feasible m (sol_X sol)" by blast
    then have "\<forall>i<length policy_eval. sol_X sol (D i) = policy_eval ! i"
      using ne unfolding m feasible_l1_model by simp
    moreover have "length policy_eval = length pbar" using pe ne len by simp
    ultimately show ?thesis unfolding pol by (intro nth_equalityI) simp_all
  qed
  from 1 2 3 show ?thesis
    by (simp add: constr_holds_sum constr_holds_pin)
qed

text \<open>
  Two actions, \<open>policy_eval = [0.25, 0.75]\<close>, and a solver that exposes a feasible
  solution with \<open>d = [0.25, 0.75]\<close>: the returned policy is \<open>[0.25, 0.75]\<close>.
\<close>

theorem srect_l1_policy_constraints_witness:
  "\<exists>obj budgets.
     srect_l1_solve_gurobi
       (\<lambda>m. \<lparr>r_status = OPTIMAL,
              r_solution = Some \<lparr>sol_ObjVal = 0, sol_X = (\<lambda>x. 0)(D 0 := 1/4, D 1 := 3/4),
                                 sol_Pi = (\<lambda>j. 0)\<rparr>\<rparr>)
       [[1, 0], [0, 1]] [[1/2, 1/2], [1/2, 1/2]] 0 [] [1/4, 3/4] = Inr (obj, [1/4, 3/4], budgets)"
proof -
  let ?opt = "\<lambda>m::grb_model. \<lparr>r_status = OPTIMAL,
              r_solution = Some \<lparr>sol_ObjVal = 0, sol_X = (\<lambda>x. 0)(D 0 := 1/4, D 1 := 3/4),
                                 sol_Pi = (\<lambda>j. 0)\<rparr>\<rparr>"
  let ?m = "l1_model [[1, 0], [0, 1]] [[1/2, 1/2], [1/2, 1/2]] 0 [] [1/4, 3/4]"
  have b: "srect_l1_build [[1, 0], [0, 1]] [[1/2, 1/2], [1/2, 1/2]] 0 [] [1/4, 3/4] = Inr ?m"
    by (rule srect_l1_build_closed) (simp_all add: rows_cover_simps EPSILON_def)
  have f: "feasible ?m ((\<lambda>x. 0)(D 0 := 1/4, D 1 := 3/4))"
    by (simp add: feasible_l1_model yindex_def less_Suc_eq all_conj_distrib numeral_2_eq_2)
  obtain obj policy budgets where
    r: "srect_l1_solve_gurobi ?opt [[1, 0], [0, 1]] [[1/2, 1/2], [1/2, 1/2]] 0 [] [1/4, 3/4] =
      Inr (obj, policy, budgets)"
    by (simp add: srect_l1_solve_gurobi_def b srect_l1_extract_def Let_def)
  have "policy = [1/4, 3/4]"
    using srect_l1_policy_constraints[OF b, of _ ?opt obj policy budgets] f r by simp
  with r show ?thesis by blast
qed

text \<open>
  Claim C6.  In the L-infinity model the constraints named \<open>theta\<close> are exactly one per
  action, in the order of the actions; the one of action \<open>a\<close> says that the sum over its
  outcomes of \<open>yp + yn\<close> is at most \<open>lambda * 1\<close>.  The only equality constraint is the one
  named \<open>policy\<close>, and it says that the \<open>d[a]\<close> sum to one.  The model does not depend on
  \<open>w\<close>: every \<open>w\<close> that passes the assertion gives the same model.  (The function has no
  \<open>policy_eval\<close> parameter.)
\<close>

theorem srect_linf_constraints:
  assumes "srect_linf_build z pbar kappa w = Inr m"
  shows "filter (\<lambda>c. c_name c = ''theta'') (m_constrs m) =
           map (theta_constr pbar) [0..<length pbar] \<and>
         (\<forall>a. constr_holds v (theta_constr pbar a) \<longleftrightarrow>
            (\<Sum>s<length (pbar ! a). v (YP (yindex pbar a s)) + v (YN (yindex pbar a s)))
              \<le> v Lambda * 1) \<and>
         filter (\<lambda>c. c_sense c = EQUAL) (m_constrs m) = [sum_constr (length pbar) ''policy''] \<and>
         (constr_holds v (sum_constr (length pbar) ''policy'') \<longleftrightarrow>
            (\<Sum>a<length pbar. v (D a)) = 1) \<and>
         (\<forall>w'. w' = [] \<or> length w' = length z \<longrightarrow> srect_linf_build z pbar kappa w' = Inr m)"
proof -
  from assms have m: "m = linf_model z pbar kappa" and cov: "rows_cover pbar z"
    by (simp_all add: srect_linf_build_iff)
  have 1: "filter (\<lambda>c. c_name c = ''theta'') (m_constrs m) = map (theta_constr pbar) [0..<length pbar]"
    by (simp only: m theta_of_linf_model)
  have 2: "filter (\<lambda>c. c_sense c = EQUAL) (m_constrs m) = [sum_constr (length pbar) ''policy'']"
    by (simp only: m equal_of_linf_model)
  have 3: "srect_linf_build z pbar kappa w' = Inr m" if "w' = [] \<or> length w' = length z" for w'
    using that cov by (simp add: srect_linf_build_iff m)
  have 4: "constr_holds v (theta_constr pbar a) \<longleftrightarrow>
            (\<Sum>s<length (pbar ! a). v (YP (yindex pbar a s)) + v (YN (yindex pbar a s)))
              \<le> v Lambda * 1" for a
    by (simp add: constr_holds_theta)
  from 1 2 3 4 show ?thesis by (simp add: constr_holds_sum)
qed

text \<open>
  Two actions with two outcomes each: two constraints named \<open>theta\<close>, and the weights
  \<open>[[5, 5], [5, 5]]\<close> give the same model as no weights.
\<close>

theorem srect_linf_constraints_witness:
  "\<exists>m. srect_linf_build [[1, 0], [0, 1]] [[1/2, 1/2], [1/2, 1/2]] 0 [] = Inr m \<and>
       srect_linf_build [[1, 0], [0, 1]] [[1/2, 1/2], [1/2, 1/2]] 0 [[5, 5], [5, 5]] = Inr m \<and>
       length (filter (\<lambda>c. c_name c = ''theta'') (m_constrs m)) = 2"
proof -
  have b: "srect_linf_build [[1, 0], [0, 1]] [[1/2, 1/2], [1/2, 1/2]] 0 [] =
      Inr (linf_model [[1, 0], [0, 1]] [[1/2, 1/2], [1/2, 1/2]] 0)"
    by (rule srect_linf_build_closed) (simp_all add: rows_cover_simps)
  show ?thesis
    using srect_linf_constraints[OF b, of "\<lambda>x. 0"] b by simp
qed

section \<open>The number of budgets (claim C8)\<close>

lemma length_psi_indices:
  "length (filter (\<lambda>j. c_name (m_constrs (l1_model z pbar kappa w pe) ! j) = ''psi'')
      [0..<length (m_constrs (l1_model z pbar kappa w pe))]) = sum_list (map length pbar)"
  using filter_index_length[of "\<lambda>c. c_name c = ''psi''" "m_constrs (l1_model z pbar kappa w pe)"]
  by (simp only: psi_of_l1_model length_concat_rows)

lemma length_theta: 
  "length (filter (\<lambda>c. c_name c = ''theta'') (m_constrs (linf_model z pbar kappa))) = length pbar"
  by (simp add: theta_of_linf_model)

lemma length_theta_indices:
  "length (filter (\<lambda>j. c_name (m_constrs (linf_model z pbar kappa) ! j) = ''theta'')
      [0..<length (m_constrs (linf_model z pbar kappa))]) = length pbar"
  using filter_index_length[of "\<lambda>c. c_name c = ''theta''" "m_constrs (linf_model z pbar kappa)"]
  by (simp only: length_theta)


lemma srect_l1_solve_Inr_ex:
  assumes "rows_cover pbar z" "w = [] \<or> rows_cover pbar w"
    and "r_status (optimize (l1_model z pbar kappa w [])) = OPTIMAL"
    and "r_solution (optimize (l1_model z pbar kappa w [])) = Some sol"
  shows "\<exists>policy budgets. srect_l1_solve_gurobi optimize z pbar kappa w [] =
     Inr (sol_ObjVal sol, policy, budgets)"
  using assms
  by (simp add: srect_l1_solve_gurobi_def srect_l1_build_closed srect_l1_extract_def Let_def)

lemma srect_linf_solve_Inr_ex:
  assumes "rows_cover pbar z" "w = [] \<or> length w = length z"
    and "r_solution (optimize (linf_model z pbar kappa)) = Some sol"
  shows "\<exists>policy budgets. srect_linf_solve_gurobi optimize z pbar kappa w =
     Inr (sol_ObjVal sol, policy, budgets)"
proof -
  have "\<exists>policy budgets. srect_linf_extract (length pbar) (linf_model z pbar kappa)
      (optimize (linf_model z pbar kappa)) = Inr (sol_ObjVal sol, policy, budgets)"
    unfolding srect_linf_extract_Inr[OF length_theta] using assms(3) by simp
  then show ?thesis
    using assms(1,2) by (simp add: srect_linf_solve_gurobi_def srect_linf_build_closed)
qed



section \<open>The objective as the budget grows: what holds at the status OPTIMAL\<close>

lemma feasible_l1_kappa:
  "feasible (l1_model z pbar kappa w pe) v = feasible (l1_model z pbar kappa' w pe) v"
  by (simp add: feasible_l1_model)

lemma feasible_linf_kappa:
  "feasible (linf_model z pbar kappa) v = feasible (linf_model z pbar kappa') v"
  by (simp add: feasible_linf_model)

lemma objective_l1_kappa:
  "le_eval v (m_objective (l1_model z pbar kappa w pe)) =
     le_eval v (m_objective (l1_model z pbar kappa' w pe)) + (kappa' - kappa) * v Lambda"
  by (simp add: l1_model_def le_eval_simps algebra_simps)

lemma objective_linf_kappa:
  "le_eval v (m_objective (linf_model z pbar kappa)) =
     le_eval v (m_objective (linf_model z pbar kappa')) + (kappa' - kappa) * v Lambda"
  by (simp add: linf_model_def le_eval_simps algebra_simps)

lemma optimal_antimono:
  assumes k: "kappa1 \<le> kappa2"
    and feas: "\<And>v. feasible m2 v \<Longrightarrow> feasible m1 v \<and> 0 \<le> v Lambda"
    and obj: "\<And>v. le_eval v (m_objective m1) = le_eval v (m_objective m2) + (kappa2 - kappa1) * v Lambda"
    and ms: "m_modelsense m1 = MAXIMIZE"
    and o1: "is_optimal m1 sol1" and o2: "is_optimal m2 sol2"
  shows "sol_ObjVal sol2 \<le> sol_ObjVal sol1"
proof -
  from o2 have f2: "feasible m2 (sol_X sol2)"
    and v2: "sol_ObjVal sol2 = le_eval (sol_X sol2) (m_objective m2)"
    by (simp_all add: is_optimal_def)
  from feas[OF f2] have f1: "feasible m1 (sol_X sol2)" and l: "0 \<le> sol_X sol2 Lambda" by simp_all
  from o1 f1 ms have "le_eval (sol_X sol2) (m_objective m1) \<le> sol_ObjVal sol1"
    by (auto simp: is_optimal_def)
  moreover have "0 \<le> (kappa2 - kappa1) * sol_X sol2 Lambda"
    using k l by simp
  ultimately show ?thesis using obj[of "sol_X sol2"] v2 by linarith
qed

lemma srect_l1_solve_Inr:
  "srect_l1_solve_gurobi optimize z pbar kappa w pe = Inr (obj, policy, budgets) \<Longrightarrow>
     srect_l1_build z pbar kappa w pe = Inr (l1_model z pbar kappa w pe) \<and>
     r_status (optimize (l1_model z pbar kappa w pe)) = OPTIMAL \<and>
     (\<exists>sol. r_solution (optimize (l1_model z pbar kappa w pe)) = Some sol \<and> obj = sol_ObjVal sol \<and>
        policy = map (\<lambda>i. sol_X sol (D i)) [0..<length pbar] \<and>
        budgets = map (sol_Pi sol)
          (filter (\<lambda>j. c_name (m_constrs (l1_model z pbar kappa w pe) ! j) = ''psi'')
             [0..<length (m_constrs (l1_model z pbar kappa w pe))]))"
  by (auto simp: srect_l1_solve_gurobi_def srect_l1_build_iff srect_l1_extract_Inr split: sum.splits)

lemma srect_linf_solve_Inr:
  assumes "srect_linf_solve_gurobi optimize z pbar kappa w = Inr (obj, policy, budgets)"
  shows "srect_linf_build z pbar kappa w = Inr (linf_model z pbar kappa) \<and>
     (\<exists>sol. r_solution (optimize (linf_model z pbar kappa)) = Some sol \<and> obj = sol_ObjVal sol \<and>
        policy = map (\<lambda>i. sol_X sol (D i)) [0..<length pbar] \<and>
        budgets = map (sol_Pi sol)
          (filter (\<lambda>j. c_name (m_constrs (linf_model z pbar kappa) ! j) = ''theta'')
             [0..<length (m_constrs (linf_model z pbar kappa))]))"
proof -
  from assms obtain m where b: "srect_linf_build z pbar kappa w = Inr m"
    and e: "srect_linf_extract (length pbar) m (optimize m) = Inr (obj, policy, budgets)"
    by (auto simp: srect_linf_solve_gurobi_def split: sum.splits)
  from b have m: "m = linf_model z pbar kappa" by (simp add: srect_linf_build_iff)
  from e b show ?thesis unfolding m srect_linf_extract_Inr[OF length_theta] by simp
qed

text \<open>
  What holds of the objective as the budget grows.  For fixed \<open>z\<close>, \<open>pbar\<close>, \<open>w\<close> and
  budgets \<open>kappa1 \<le> kappa2\<close>, when the solver meets its contract on the two models, the
  objective that the L1 operation returns for \<open>kappa2\<close> is at most the one it returns for
  \<open>kappa1\<close>: the L1 operation returns only at the status \<open>OPTIMAL\<close>.  The same holds of
  the L-infinity operation when the status is \<open>OPTIMAL\<close> on both models; the operation
  does not test it.
\<close>

theorem srect_objective_antimono:
  assumes "0 \<le> kappa1" "kappa1 \<le> kappa2"
  shows "((\<forall>m. srect_l1_build z pbar kappa1 w policy_eval = Inr m \<longrightarrow> solves optimize m) \<and>
          (\<forall>m. srect_l1_build z pbar kappa2 w policy_eval = Inr m \<longrightarrow> solves optimize m) \<and>
          srect_l1_solve_gurobi optimize z pbar kappa1 w policy_eval = Inr (obj1, policy1, budgets1) \<and>
          srect_l1_solve_gurobi optimize z pbar kappa2 w policy_eval = Inr (obj2, policy2, budgets2)
          \<longrightarrow> obj2 \<le> obj1) \<and>
         ((\<forall>m. srect_linf_build z pbar kappa1 w = Inr m \<longrightarrow>
              solves optimize m \<and> r_status (optimize m) = OPTIMAL) \<and>
          (\<forall>m. srect_linf_build z pbar kappa2 w = Inr m \<longrightarrow>
              solves optimize m \<and> r_status (optimize m) = OPTIMAL) \<and>
          srect_linf_solve_gurobi optimize z pbar kappa1 w = Inr (obj1', policy1', budgets1') \<and>
          srect_linf_solve_gurobi optimize z pbar kappa2 w = Inr (obj2', policy2', budgets2')
          \<longrightarrow> obj2' \<le> obj1')"
proof (intro conjI impI)
  let ?m1 = "l1_model z pbar kappa1 w policy_eval" and ?m2 = "l1_model z pbar kappa2 w policy_eval"
  assume a: "(\<forall>m. srect_l1_build z pbar kappa1 w policy_eval = Inr m \<longrightarrow> solves optimize m) \<and>
          (\<forall>m. srect_l1_build z pbar kappa2 w policy_eval = Inr m \<longrightarrow> solves optimize m) \<and>
          srect_l1_solve_gurobi optimize z pbar kappa1 w policy_eval = Inr (obj1, policy1, budgets1) \<and>
          srect_l1_solve_gurobi optimize z pbar kappa2 w policy_eval = Inr (obj2, policy2, budgets2)"
  then have r1: "srect_l1_solve_gurobi optimize z pbar kappa1 w policy_eval = Inr (obj1, policy1, budgets1)"
    and r2: "srect_l1_solve_gurobi optimize z pbar kappa2 w policy_eval = Inr (obj2, policy2, budgets2)"
    by simp_all
  from srect_l1_solve_Inr[OF r1] obtain sol1 where
    b1: "srect_l1_build z pbar kappa1 w policy_eval = Inr ?m1"
    and s1: "r_status (optimize ?m1) = OPTIMAL" "r_solution (optimize ?m1) = Some sol1"
    and o1: "obj1 = sol_ObjVal sol1" by blast
  from srect_l1_solve_Inr[OF r2] obtain sol2 where
    b2: "srect_l1_build z pbar kappa2 w policy_eval = Inr ?m2"
    and s2: "r_status (optimize ?m2) = OPTIMAL" "r_solution (optimize ?m2) = Some sol2"
    and o2: "obj2 = sol_ObjVal sol2" by blast
  from a b1 s1 have opt1: "is_optimal ?m1 sol1" by (simp add: solves_def)
  from a b2 s2 have opt2: "is_optimal ?m2 sol2" by (simp add: solves_def)
  have "sol_ObjVal sol2 \<le> sol_ObjVal sol1"
  proof (rule optimal_antimono[OF assms(2) _ _ _ opt1 opt2])
    show "feasible ?m1 v \<and> 0 \<le> v Lambda" if "feasible ?m2 v" for v
      using that by (simp add: feasible_l1_model)
    show "le_eval v (m_objective ?m1) = le_eval v (m_objective ?m2) + (kappa2 - kappa1) * v Lambda" for v
      by (rule objective_l1_kappa)
    show "m_modelsense ?m1 = MAXIMIZE" by (simp add: l1_model_def)
  qed
  then show "obj2 \<le> obj1" by (simp add: o1 o2)
next
  let ?m1 = "linf_model z pbar kappa1" and ?m2 = "linf_model z pbar kappa2"
  assume a: "(\<forall>m. srect_linf_build z pbar kappa1 w = Inr m \<longrightarrow>
              solves optimize m \<and> r_status (optimize m) = OPTIMAL) \<and>
          (\<forall>m. srect_linf_build z pbar kappa2 w = Inr m \<longrightarrow>
              solves optimize m \<and> r_status (optimize m) = OPTIMAL) \<and>
          srect_linf_solve_gurobi optimize z pbar kappa1 w = Inr (obj1', policy1', budgets1') \<and>
          srect_linf_solve_gurobi optimize z pbar kappa2 w = Inr (obj2', policy2', budgets2')"
  then have r1: "srect_linf_solve_gurobi optimize z pbar kappa1 w = Inr (obj1', policy1', budgets1')"
    and r2: "srect_linf_solve_gurobi optimize z pbar kappa2 w = Inr (obj2', policy2', budgets2')"
    by simp_all
  from srect_linf_solve_Inr[OF r1] obtain sol1 where
    b1: "srect_linf_build z pbar kappa1 w = Inr ?m1"
    and s1: "r_solution (optimize ?m1) = Some sol1"
    and o1: "obj1' = sol_ObjVal sol1" by blast
  from srect_linf_solve_Inr[OF r2] obtain sol2 where
    b2: "srect_linf_build z pbar kappa2 w = Inr ?m2"
    and s2: "r_solution (optimize ?m2) = Some sol2"
    and o2: "obj2' = sol_ObjVal sol2" by blast
  from a b1 s1 have opt1: "is_optimal ?m1 sol1" by (simp add: solves_def)
  from a b2 s2 have opt2: "is_optimal ?m2 sol2" by (simp add: solves_def)
  have "sol_ObjVal sol2 \<le> sol_ObjVal sol1"
  proof (rule optimal_antimono[OF assms(2) _ _ _ opt1 opt2])
    show "feasible ?m1 v \<and> 0 \<le> v Lambda" if "feasible ?m2 v" for v
      using that by (simp add: feasible_linf_model)
    show "le_eval v (m_objective ?m1) = le_eval v (m_objective ?m2) + (kappa2 - kappa1) * v Lambda" for v
      by (rule objective_linf_kappa)
    show "m_modelsense ?m1 = MAXIMIZE" by (simp add: linf_model_def)
  qed
  then show "obj2' \<le> obj1'" by (simp add: o1 o2)
qed

lemma le_eval_l1_objective:
  "le_eval v (m_objective (l1_model z pbar kappa w pe)) =
     (\<Sum>a<length pbar. v (X a) +
        (\<Sum>s<length (pbar ! a). pbar ! a ! s * (v (YN (yindex pbar a s)) - v (YP (yindex pbar a s)))))
     - kappa * v Lambda"
  by (simp only: l1_model_def grb_model.simps le_eval_srect_objective)

lemma le_eval_linf_objective:
  "le_eval v (m_objective (linf_model z pbar kappa)) =
     (\<Sum>a<length pbar. v (X a) +
        (\<Sum>s<length (pbar ! a). pbar ! a ! s * (v (YN (yindex pbar a s)) - v (YP (yindex pbar a s)))))
     - kappa * v Lambda"
  by (simp only: linf_model_def grb_model.simps le_eval_srect_objective)

lemma is_optimal_l1_example:
  assumes "kappa = 0 \<or> kappa = 1/2"
  shows "is_optimal (l1_model [[1, 0]] [[1/2, 1/2]] kappa [] [])
     \<lparr>sol_ObjVal = 1/2 - kappa / 2,
      sol_X = (\<lambda>x. 0)(X 0 := 1/2, YN 0 := 1/2, YP 1 := 1/2, Lambda := 1/2, D 0 := 1),
      sol_Pi = (\<lambda>j. 0)\<rparr>"
proof -
  let ?v0 = "(\<lambda>x. 0 :: real)(X 0 := 1/2, YN 0 := 1/2, YP 1 := 1/2, Lambda := 1/2, D 0 := 1)"
  let ?m = "l1_model [[1, 0]] [[1/2, 1/2]] kappa [] []"
  have f: "feasible ?m ?v0"
    by (simp add: feasible_l1_model yindex_def less_Suc_eq all_conj_distrib numeral_2_eq_2)
  have o: "le_eval ?v0 (m_objective ?m) = 1/2 - kappa / 2"
    by (simp add: le_eval_l1_objective yindex_def lessThan_Suc numeral_2_eq_2)
  have u: "le_eval v (m_objective ?m) \<le> 1/2 - kappa / 2" if "feasible ?m v" for v
  proof -
    from that have c: "0 \<le> v (YP 0)" "0 \<le> v (YN 0)" "0 \<le> v (YP 1)" "0 \<le> v (YN 1)"
      "0 \<le> v Lambda" "v (D 0) = 1"
      "v (X 0) - v (YP 0) + v (YN 0) \<le> v (D 0)" "v (X 0) - v (YP 1) + v (YN 1) \<le> 0"
      "- v Lambda + v (YP 0) + v (YN 0) \<le> 0" "- v Lambda + v (YP 1) + v (YN 1) \<le> 0"
      by (simp_all add: feasible_l1_model yindex_def less_Suc_eq all_conj_distrib numeral_2_eq_2)
    have e: "le_eval v (m_objective ?m) =
        v (X 0) + (1/2 * (v (YN 0) - v (YP 0)) + 1/2 * (v (YN 1) - v (YP 1))) - kappa * v Lambda"
      by (simp add: le_eval_l1_objective yindex_def lessThan_Suc numeral_2_eq_2)
    from assms show ?thesis
    proof
      assume k: "kappa = 0"
      show ?thesis using c e unfolding k by argo
    next
      assume k: "kappa = 1/2"
      show ?thesis using c e unfolding k by argo
    qed
  qed
  show ?thesis
    unfolding is_optimal_def using f o u by (simp add: l1_model_def)
qed

lemma is_optimal_linf_example:
  assumes "kappa = 0 \<or> kappa = 1/4"
  shows "is_optimal (linf_model [[1, 0]] [[1/2, 1/2]] kappa)
     \<lparr>sol_ObjVal = 1/2 - kappa,
      sol_X = (\<lambda>x. 0)(X 0 := 1/2, YN 0 := 1/2, YP 1 := 1/2, Lambda := 1, D 0 := 1),
      sol_Pi = (\<lambda>j. 0)\<rparr>"
proof -
  let ?v0 = "(\<lambda>x. 0 :: real)(X 0 := 1/2, YN 0 := 1/2, YP 1 := 1/2, Lambda := 1, D 0 := 1)"
  let ?m = "linf_model [[1, 0]] [[1/2, 1/2]] kappa"
  have f: "feasible ?m ?v0"
    by (simp add: feasible_linf_model yindex_def less_Suc_eq all_conj_distrib numeral_2_eq_2
        lessThan_Suc)
  have o: "le_eval ?v0 (m_objective ?m) = 1/2 - kappa"
    by (simp add: le_eval_linf_objective yindex_def lessThan_Suc numeral_2_eq_2)
  have u: "le_eval v (m_objective ?m) \<le> 1/2 - kappa" if "feasible ?m v" for v
  proof -
    from that have c: "0 \<le> v (YP 0)" "0 \<le> v (YN 0)" "0 \<le> v (YP 1)" "0 \<le> v (YN 1)"
      "0 \<le> v Lambda" "v (D 0) = 1"
      "v (X 0) - v (YP 0) + v (YN 0) \<le> v (D 0)" "v (X 0) - v (YP 1) + v (YN 1) \<le> 0"
      "- v Lambda + (v (YP 0) + v (YN 0) + (v (YP 1) + v (YN 1))) \<le> 0"
      by (simp_all add: feasible_linf_model yindex_def less_Suc_eq all_conj_distrib numeral_2_eq_2
          lessThan_Suc)
    have e: "le_eval v (m_objective ?m) =
        v (X 0) + (1/2 * (v (YN 0) - v (YP 0)) + 1/2 * (v (YN 1) - v (YP 1))) - kappa * v Lambda"
      by (simp add: le_eval_linf_objective yindex_def lessThan_Suc numeral_2_eq_2)
    from assms show ?thesis
    proof
      assume k: "kappa = 0"
      show ?thesis using c e unfolding k by argo
    next
      assume k: "kappa = 1/4"
      show ?thesis using c e unfolding k by argo
    qed
  qed
  show ?thesis
    unfolding is_optimal_def using f o u by (simp add: linf_model_def)
qed

text \<open>
  One action with the returns \<open>[1, 0]\<close> and the nominal probabilities \<open>[0.5, 0.5]\<close>, and a
  solver that exposes an optimal solution of each model: the L1 operation returns the
  objective \<open>0.5\<close> for the budget \<open>0\<close> and \<open>0.25\<close> for the budget \<open>0.5\<close>; the L-infinity
  operation returns \<open>0.5\<close> for the budget \<open>0\<close> and \<open>0.25\<close> for the budget \<open>0.25\<close>.
\<close>

theorem srect_objective_antimono_witness:
  "(\<exists>optimize p1 b1 p2 b2.
      srect_l1_solve_gurobi optimize [[1, 0]] [[1/2, 1/2]] 0 [] [] = Inr (1/2, p1, b1) \<and>
      srect_l1_solve_gurobi optimize [[1, 0]] [[1/2, 1/2]] (1/2) [] [] = Inr (1/4, p2, b2) \<and>
      (1/4 :: real) \<le> 1/2) \<and>
   (\<exists>optimize p1 b1 p2 b2.
      srect_linf_solve_gurobi optimize [[1, 0]] [[1/2, 1/2]] 0 [] = Inr (1/2, p1, b1) \<and>
      srect_linf_solve_gurobi optimize [[1, 0]] [[1/2, 1/2]] (1/4) [] = Inr (1/4, p2, b2) \<and>
      (1/4 :: real) \<le> 1/2)"
proof
  let ?z = "[[1, 0 :: real]]" and ?p = "[[1/2, 1/2 :: real]]"
  let ?v = "(\<lambda>x. 0 :: real)(X 0 := 1/2, YN 0 := 1/2, YP 1 := 1/2, Lambda := 1/2, D 0 := 1)"
  let ?m1 = "l1_model ?z ?p 0 [] []" and ?m2 = "l1_model ?z ?p (1/2) [] []"
  define optimize :: grb_optimize where
    "optimize = (\<lambda>m. \<lparr>r_status = OPTIMAL,
       r_solution = Some \<lparr>sol_ObjVal = (if m = ?m1 then 1/2 else 1/4), sol_X = ?v,
         sol_Pi = (\<lambda>j. 0)\<rparr>\<rparr>)"
  have ne: "?m2 \<noteq> ?m1"
  proof
    assume "?m2 = ?m1"
    then have "le_eval ?v (m_objective ?m2) = le_eval ?v (m_objective ?m1)" by simp
    then show False
      using objective_l1_kappa[of ?v ?z ?p "1/2" "[]" "[]" 0] by simp
  qed
  have cov: "rows_cover ?p ?z" by (simp add: rows_cover_simps)
  have b1: "srect_l1_build ?z ?p 0 [] [] = Inr ?m1" and b2: "srect_l1_build ?z ?p (1/2) [] [] = Inr ?m2"
    using cov by (simp_all add: srect_l1_build_closed)
  have s1: "solves optimize ?m1"
    using is_optimal_l1_example[of 0] by (simp add: solves_def optimize_def)
  have s2: "solves optimize ?m2"
    using is_optimal_l1_example[of "1/2"] ne by (simp add: solves_def optimize_def)
  obtain p1 b1' where r1: "srect_l1_solve_gurobi optimize ?z ?p 0 [] [] = Inr (1/2, p1, b1')"
    using srect_l1_solve_Inr_ex[of ?p ?z "[]" optimize 0] cov
    by (auto simp: optimize_def)
  obtain p2 b2' where r2: "srect_l1_solve_gurobi optimize ?z ?p (1/2) [] [] = Inr (1/4, p2, b2')"
    using srect_l1_solve_Inr_ex[of ?p ?z "[]" optimize "1/2"] cov ne
    by (auto simp: optimize_def)
  have "(1/4 :: real) \<le> 1/2"
    using srect_objective_antimono[of 0 "1/2" ?z ?p "[]" "[]" optimize "1/2" p1 b1' "1/4" p2 b2']
      b1 b2 s1 s2 r1 r2 by simp
  with r1 r2 show "\<exists>optimize p1 b1 p2 b2.
      srect_l1_solve_gurobi optimize [[1, 0]] [[1/2, 1/2]] 0 [] [] = Inr (1/2, p1, b1) \<and>
      srect_l1_solve_gurobi optimize [[1, 0]] [[1/2, 1/2]] (1/2) [] [] = Inr (1/4, p2, b2) \<and>
      (1/4 :: real) \<le> 1/2"
    by blast
next
  let ?z = "[[1, 0 :: real]]" and ?p = "[[1/2, 1/2 :: real]]"
  let ?v = "(\<lambda>x. 0 :: real)(X 0 := 1/2, YN 0 := 1/2, YP 1 := 1/2, Lambda := 1, D 0 := 1)"
  let ?m1 = "linf_model ?z ?p 0" and ?m2 = "linf_model ?z ?p (1/4)"
  define optimize :: grb_optimize where
    "optimize = (\<lambda>m. \<lparr>r_status = OPTIMAL,
       r_solution = Some \<lparr>sol_ObjVal = (if m = ?m1 then 1/2 else 1/4), sol_X = ?v,
         sol_Pi = (\<lambda>j. 0)\<rparr>\<rparr>)"
  have ne: "?m2 \<noteq> ?m1"
  proof
    assume "?m2 = ?m1"
    then have "le_eval ?v (m_objective ?m2) = le_eval ?v (m_objective ?m1)" by simp
    then show False
      using objective_linf_kappa[of ?v ?z ?p "1/4" 0] by simp
  qed
  have cov: "rows_cover ?p ?z" by (simp add: rows_cover_simps)
  have b1: "srect_linf_build ?z ?p 0 [] = Inr ?m1" and b2: "srect_linf_build ?z ?p (1/4) [] = Inr ?m2"
    using cov by (simp_all add: srect_linf_build_closed)
  have s1: "solves optimize ?m1"
    using is_optimal_linf_example[of 0] by (simp add: solves_def optimize_def)
  have s2: "solves optimize ?m2"
    using is_optimal_linf_example[of "1/4"] ne by (simp add: solves_def optimize_def)
  have st: "r_status (optimize m) = OPTIMAL" for m by (simp add: optimize_def)
  obtain p1 b1' where r1: "srect_linf_solve_gurobi optimize ?z ?p 0 [] = Inr (1/2, p1, b1')"
    using srect_linf_solve_Inr_ex[of ?p ?z "[]" optimize 0] cov
    by (auto simp: optimize_def)
  obtain p2 b2' where r2: "srect_linf_solve_gurobi optimize ?z ?p (1/4) [] = Inr (1/4, p2, b2')"
    using srect_linf_solve_Inr_ex[of ?p ?z "[]" optimize "1/4"] cov ne
    by (auto simp: optimize_def)
  have "(1/4 :: real) \<le> 1/2"
    using srect_objective_antimono[of 0 "1/4" ?z ?p "[]" _ optimize _ _ _ _ _ _ "1/2" p1 b1' "1/4" p2 b2']
      b1 b2 s1 s2 r1 r2 st by simp
  with r1 r2 show "\<exists>optimize p1 b1 p2 b2.
      srect_linf_solve_gurobi optimize [[1, 0]] [[1/2, 1/2]] 0 [] = Inr (1/2, p1, b1) \<and>
      srect_linf_solve_gurobi optimize [[1, 0]] [[1/2, 1/2]] (1/4) [] = Inr (1/4, p2, b2) \<and>
      (1/4 :: real) \<le> 1/2"
    by blast
qed

section \<open>The status of the solver (claim C3)\<close>

text \<open>
  A solution that a solver may expose when it stops early: for one action with the returns
  \<open>[1, 0]\<close>, the nominal probabilities \<open>[0.5, 0.5]\<close> and the budget \<open>0.25\<close>, the point
  \<open>d = 1\<close> with every other variable zero is feasible in the L-infinity model, with the
  objective \<open>0\<close>, and it is not optimal: the optimum is \<open>0.25\<close>.
\<close>

lemma linf_feasible_not_optimal:
  "feasible (linf_model [[1, 0]] [[1/2, 1/2]] (1/4)) ((\<lambda>x. 0)(D 0 := 1)) \<and>
   \<not> is_optimal (linf_model [[1, 0]] [[1/2, 1/2]] (1/4))
       \<lparr>sol_ObjVal = 0, sol_X = (\<lambda>x. 0)(D 0 := 1), sol_Pi = (\<lambda>j. 0)\<rparr>"
proof -
  let ?z = "[[1, 0 :: real]]" and ?p = "[[1/2, 1/2 :: real]]"
  let ?m = "linf_model ?z ?p (1/4)"
  let ?sol = "\<lparr>sol_ObjVal = 0, sol_X = (\<lambda>x. 0)(D 0 := 1), sol_Pi = (\<lambda>j. 0)\<rparr>"
  have 2: "feasible ?m ((\<lambda>x. 0)(D 0 := 1))"
    by (simp add: feasible_linf_model yindex_def less_Suc_eq all_conj_distrib numeral_2_eq_2
        lessThan_Suc)
  have 3: "\<not> is_optimal ?m ?sol"
  proof
    assume o: "is_optimal ?m ?sol"
    let ?v = "(\<lambda>x. 0 :: real)(X 0 := 1/2, YN 0 := 1/2, YP 1 := 1/2, Lambda := 1, D 0 := 1)"
    from is_optimal_linf_example[of "1/4"] have f: "feasible ?m ?v"
      and e: "le_eval ?v (m_objective ?m) = 1/4"
      by (simp_all add: is_optimal_def)
    from o f have "le_eval ?v (m_objective ?m) \<le> 0"
      by (simp add: is_optimal_def linf_model_def)
    with e show False by simp
  qed
  from 2 3 show ?thesis by blast
qed

text \<open>
  Claim C3, at the input where the code departs from it.  One action with the returns
  \<open>[1, 0]\<close>, the nominal probabilities \<open>[0.5, 0.5]\<close> and the budget \<open>0.25\<close>.  The solver
  stops with the status \<open>SUBOPTIMAL\<close> and exposes the feasible, non-optimal solution above.
  The L-infinity operation, which never reads the status, returns that solution as its
  result (objective \<open>0\<close> instead of \<open>0.25\<close>); the L1 operation fails with an invalid-argument
  error on the same outcome of the solver.
\<close>

theorem srect_linf_ignores_status:
  "srect_linf_solve_gurobi
     (\<lambda>m. \<lparr>r_status = SUBOPTIMAL,
            r_solution = Some \<lparr>sol_ObjVal = 0, sol_X = (\<lambda>x. 0)(D 0 := 1), sol_Pi = (\<lambda>j. 0)\<rparr>\<rparr>)
     [[1, 0]] [[1/2, 1/2]] (1/4) [] = Inr (0, [1], [0]) \<and>
   srect_l1_solve_gurobi
     (\<lambda>m. \<lparr>r_status = SUBOPTIMAL,
            r_solution = Some \<lparr>sol_ObjVal = 0, sol_X = (\<lambda>x. 0)(D 0 := 1), sol_Pi = (\<lambda>j. 0)\<rparr>\<rparr>)
     [[1, 0]] [[1/2, 1/2]] (1/4) [] [] = Inl (InvalidArgument ''Failed to solve the LP.'')"
proof -
  let ?z = "[[1, 0 :: real]]" and ?p = "[[1/2, 1/2 :: real]]"
  let ?m = "linf_model ?z ?p (1/4)"
  let ?sol = "\<lparr>sol_ObjVal = 0, sol_X = (\<lambda>x. 0)(D 0 := 1), sol_Pi = (\<lambda>j. 0)\<rparr>"
  let ?r = "\<lparr>r_status = SUBOPTIMAL, r_solution = Some ?sol\<rparr>"
  have b: "srect_linf_build ?z ?p (1/4) [] = Inr ?m"
    by (rule srect_linf_build_closed) (simp_all add: rows_cover_simps)
  have c: "srect_l1_build ?z ?p (1/4) [] [] = Inr (l1_model ?z ?p (1/4) [] [])"
    by (rule srect_l1_build_closed) (simp_all add: rows_cover_simps)
  have l: "length (filter (\<lambda>j. c_name (m_constrs ?m ! j) = ''theta'') [0..<length (m_constrs ?m)]) = 1"
    by (simp only: length_theta_indices) simp
  have bud: "map (\<lambda>j. 0 :: real)
      (filter (\<lambda>j. c_name (m_constrs ?m ! j) = ''theta'') [0..<length (m_constrs ?m)]) = [0]"
    by (simp only: map_replicate_const l) simp
  have t: "length (filter (\<lambda>c. c_name c = ''theta'') (m_constrs ?m)) = length ?p"
    by (rule length_theta)
  have 1: "srect_linf_solve_gurobi (\<lambda>m. ?r) ?z ?p (1/4) [] = Inr (0, [1], [0])"
    unfolding srect_linf_solve_gurobi_def b
    using srect_linf_extract_Inr[OF t, of ?r 0 "[1]" "[0]"]
    by (simp add: bud)
  have 4: "srect_l1_solve_gurobi (\<lambda>m. ?r) ?z ?p (1/4) [] [] =
      Inl (InvalidArgument ''Failed to solve the LP.'')"
    unfolding srect_l1_solve_gurobi_def c by (simp add: srect_l1_extract_def)
  from 1 4 show ?thesis by blast
qed

section \<open>The budget zero gives the non-robust value (claim C2)\<close>

lemma sum_list_nth: "sum_list xs = (\<Sum>s<length xs. xs ! s)" for xs :: "real list"
  by (simp add: sum_list_sum_nth atLeast0LessThan)

lemma nth_concat_offset:
  "a < length xss \<Longrightarrow> s < length (xss ! a) \<Longrightarrow>
     concat xss ! (sum_list (map length (take a xss)) + s) = xss ! a ! s"
proof (induction xss arbitrary: a)
  case Nil
  then show ?case by simp
next
  case (Cons xs xss)
  show ?case
  proof (cases a)
    case 0
    with Cons.prems show ?thesis by (simp add: nth_append)
  next
    case (Suc b)
    with Cons.prems have "b < length xss" "s < length (xss ! b)" by simp_all
    from Cons.IH[OF this] Suc show ?thesis by (simp add: nth_append)
  qed
qed

lemma nth_concat_rows:
  assumes "a < length pbar" "s < length (pbar ! a)"
  shows "concat (map (\<lambda>a. map (f a) [0..<length (pbar ! a)]) [0..<length pbar]) ! yindex pbar a s = f a s"
proof -
  let ?xss = "map (\<lambda>a. map (f a) [0..<length (pbar ! a)]) [0..<length pbar]"
  have l: "map length (take a ?xss) = map length (take a pbar)"
    using assms(1) by (intro nth_equalityI) simp_all
  have "concat ?xss ! (sum_list (map length (take a ?xss)) + s) = ?xss ! a ! s"
    using assms by (intro nth_concat_offset) simp_all
  then show ?thesis using assms by (simp add: l yindex_def)
qed

lemma objective_le_nominal:
  assumes P: "\<forall>a<length pbar. \<forall>s<length (pbar ! a).
       v (X a) - v (YP (yindex pbar a s)) + v (YN (yindex pbar a s)) \<le> z ! a ! s * v (D a)"
    and nn: "\<forall>a<length pbar. \<forall>s<length (pbar ! a). 0 \<le> pbar ! a ! s"
    and s1: "\<forall>a<length pbar. (\<Sum>s<length (pbar ! a). pbar ! a ! s) = 1"
  shows "(\<Sum>a<length pbar. v (X a) +
        (\<Sum>s<length (pbar ! a). pbar ! a ! s * (v (YN (yindex pbar a s)) - v (YP (yindex pbar a s)))))
     \<le> (\<Sum>a<length pbar. v (D a) * nominal_return z pbar a)"
proof (rule sum_mono)
  fix a assume "a \<in> {..<length pbar}"
  then have a: "a < length pbar" by simp
  let ?n = "length (pbar ! a)"
  have "v (X a) = (\<Sum>s<?n. pbar ! a ! s) * v (X a)" using s1 a by simp
  also have "\<dots> = (\<Sum>s<?n. pbar ! a ! s * v (X a))" by (simp add: sum_distrib_right)
  finally have x: "v (X a) = (\<Sum>s<?n. pbar ! a ! s * v (X a))" .
  have "v (X a) + (\<Sum>s<?n. pbar ! a ! s * (v (YN (yindex pbar a s)) - v (YP (yindex pbar a s)))) =
      (\<Sum>s<?n. pbar ! a ! s * v (X a)) +
      (\<Sum>s<?n. pbar ! a ! s * (v (YN (yindex pbar a s)) - v (YP (yindex pbar a s))))"
    using x by simp
  also have "\<dots> = (\<Sum>s<?n. pbar ! a ! s *
        (v (X a) - v (YP (yindex pbar a s)) + v (YN (yindex pbar a s))))"
    by (simp add: sum.distrib[symmetric] algebra_simps)
  also have "\<dots> \<le> (\<Sum>s<?n. pbar ! a ! s * (z ! a ! s * v (D a)))"
    using P nn a by (intro sum_mono mult_left_mono) simp_all
  also have "\<dots> = v (D a) * nominal_return z pbar a"
    by (simp add: nominal_return_def sum_distrib_left algebra_simps)
  finally show "v (X a) +
      (\<Sum>s<?n. pbar ! a ! s * (v (YN (yindex pbar a s)) - v (YP (yindex pbar a s))))
      \<le> v (D a) * nominal_return z pbar a" .
qed

lemma srect_point_simps:
  "srect_point z pbar xs ds l (X a) = xs a"
  "srect_point z pbar xs ds l (D a) = ds a"
  "srect_point z pbar xs ds l Lambda = l"
  "0 \<le> srect_point z pbar xs ds l (YP i)"
  "0 \<le> srect_point z pbar xs ds l (YN i)"
  by (simp_all add: srect_point_def)

lemma srect_point_y:
  assumes "a < length pbar" "s < length (pbar ! a)"
  shows "srect_point z pbar xs ds l (YP (yindex pbar a s)) = max (- (ds a * z ! a ! s - xs a)) 0"
    and "srect_point z pbar xs ds l (YN (yindex pbar a s)) = max (ds a * z ! a ! s - xs a) 0"
  using nth_concat_rows[OF assms, of "\<lambda>a s. ds a * z ! a ! s - xs a"]
  by (simp_all add: srect_point_def)

lemma srect_point_objective:
  "(\<Sum>a<length pbar. srect_point z pbar xs ds l (X a) +
      (\<Sum>s<length (pbar ! a). pbar ! a ! s *
         (srect_point z pbar xs ds l (YN (yindex pbar a s)) -
          srect_point z pbar xs ds l (YP (yindex pbar a s))))) =
   (\<Sum>a<length pbar. ds a * nominal_return z pbar a +
      xs a * (1 - (\<Sum>s<length (pbar ! a). pbar ! a ! s)))"
proof (rule sum.cong[OF refl])
  fix a assume "a \<in> {..<length pbar}"
  then have a: "a < length pbar" by simp
  let ?n = "length (pbar ! a)"
  have "(\<Sum>s<?n. pbar ! a ! s *
         (srect_point z pbar xs ds l (YN (yindex pbar a s)) -
          srect_point z pbar xs ds l (YP (yindex pbar a s)))) =
      (\<Sum>s<?n. pbar ! a ! s * (ds a * z ! a ! s - xs a))"
    by (rule sum.cong[OF refl]) (auto simp: srect_point_y[OF a] max_def)
  also have "\<dots> = ds a * (\<Sum>s<?n. z ! a ! s * pbar ! a ! s) - xs a * (\<Sum>s<?n. pbar ! a ! s)"
    by (simp add: sum_distrib_left sum_subtractf algebra_simps)
  finally show "srect_point z pbar xs ds l (X a) +
      (\<Sum>s<?n. pbar ! a ! s *
         (srect_point z pbar xs ds l (YN (yindex pbar a s)) -
          srect_point z pbar xs ds l (YP (yindex pbar a s)))) =
      ds a * nominal_return z pbar a + xs a * (1 - (\<Sum>s<?n. pbar ! a ! s))"
    by (simp add: srect_point_simps nominal_return_def algebra_simps)
qed

lemma srect_point_abs:
  assumes "a < length pbar" "s < length (pbar ! a)"
  shows "srect_point z pbar xs ds l (YP (yindex pbar a s)) +
         srect_point z pbar xs ds l (YN (yindex pbar a s)) = \<bar>ds a * z ! a ! s - xs a\<bar>"
  by (simp add: srect_point_y[OF assms])

lemma srect_point_P:
  assumes "a < length pbar" "s < length (pbar ! a)"
  shows "srect_point z pbar xs ds l (X a) - srect_point z pbar xs ds l (YP (yindex pbar a s)) +
         srect_point z pbar xs ds l (YN (yindex pbar a s)) \<le> z ! a ! s * srect_point z pbar xs ds l (D a)"
  by (auto simp: srect_point_y[OF assms] srect_point_simps max_def)

lemma term_le_double_sum:
  fixes f :: "nat \<Rightarrow> nat \<Rightarrow> real"
  assumes "\<And>a s. a < n \<Longrightarrow> s < k a \<Longrightarrow> 0 \<le> f a s" "a < n" "s < k a"
  shows "f a s \<le> (\<Sum>a<n. \<Sum>s<k a. f a s)"
proof -
  have "f a s \<le> (\<Sum>s<k a. f a s)"
    using assms by (intro member_le_sum) simp_all
  also have "\<dots> \<le> (\<Sum>a<n. \<Sum>s<k a. f a s)"
    using assms by (intro member_le_sum[of a _ "\<lambda>a. \<Sum>s<k a. f a s"] sum_nonneg) simp_all
  finally show ?thesis .
qed

lemma row_le_double_sum:
  fixes f :: "nat \<Rightarrow> nat \<Rightarrow> real"
  assumes "\<And>a s. a < n \<Longrightarrow> s < k a \<Longrightarrow> 0 \<le> f a s" "a < n"
  shows "(\<Sum>s<k a. f a s) \<le> (\<Sum>a<n. \<Sum>s<k a. f a s)"
  using assms by (intro member_le_sum[of a _ "\<lambda>a. \<Sum>s<k a. f a s"] sum_nonneg) simp_all

lemma positive_weightsD:
  assumes "positive_weights pbar w" "w \<noteq> []" "a < length pbar" "s < length (pbar ! a)"
  shows "0 < w ! a ! s"
proof -
  from assms(1,2,3) have "list_all (\<lambda>x. 0 < x) (take (length (pbar ! a)) (w ! a))"
    and "length (pbar ! a) \<le> length (w ! a)"
    by (simp_all add: positive_weights_def list_all2_conv_all_nth)
  then have "0 < take (length (pbar ! a)) (w ! a) ! s"
    using assms(4) by (simp add: list_all_length)
  then show ?thesis using assms(4) by simp
qed

lemma l1_feasible_point:
  assumes d: "\<forall>a<length pbar. 0 \<le> ds a" "(\<Sum>a<length pbar. ds a) = 1"
    and w: "positive_weights pbar w"
  shows "\<exists>v. feasible (l1_model z pbar kappa w []) v \<and> (\<forall>a. v (D a) = ds a) \<and>
      (\<Sum>a<length pbar. v (X a) +
        (\<Sum>s<length (pbar ! a). pbar ! a ! s * (v (YN (yindex pbar a s)) - v (YP (yindex pbar a s))))) =
      (\<Sum>a<length pbar. ds a * nominal_return z pbar a +
        xs a * (1 - (\<Sum>s<length (pbar ! a). pbar ! a ! s)))"
proof -
  define wt where "wt a s = (if w = [] then 1 else w ! a ! s)" for a s
  define l where "l = (\<Sum>a<length pbar. \<Sum>s<length (pbar ! a). \<bar>ds a * z ! a ! s - xs a\<bar> / wt a s)"
  let ?v = "srect_point z pbar xs ds l"
  have wpos: "0 < wt a s" if "a < length pbar" "s < length (pbar ! a)" for a s
    using positive_weightsD[OF w _ that] by (simp add: wt_def)
  have nn: "0 \<le> \<bar>ds a * z ! a ! s - xs a\<bar> / wt a s" if "a < length pbar" "s < length (pbar ! a)" for a s
    using wpos[OF that] by simp
  have l0: "0 \<le> l" unfolding l_def using nn by (intro sum_nonneg) simp
  have psi: "- ?v Lambda * wt a s + ?v (YP (yindex pbar a s)) + ?v (YN (yindex pbar a s)) \<le> 0"
    if "a < length pbar" "s < length (pbar ! a)" for a s
  proof -
    have "\<bar>ds a * z ! a ! s - xs a\<bar> / wt a s \<le> l"
      unfolding l_def
      by (rule term_le_double_sum[of "length pbar" "\<lambda>a. length (pbar ! a)"
            "\<lambda>a s. \<bar>ds a * z ! a ! s - xs a\<bar> / wt a s", OF nn that]) 
    then have "\<bar>ds a * z ! a ! s - xs a\<bar> \<le> l * wt a s"
      using wpos[OF that] by (simp add: pos_divide_le_eq)
    then show ?thesis
      using srect_point_abs[OF that, of z xs ds l] by (simp add: srect_point_simps)
  qed
  have "feasible (l1_model z pbar kappa w []) ?v"
    unfolding feasible_l1_model
    using d l0 psi srect_point_P[of _ pbar _ z xs ds l]
    by (simp add: srect_point_simps wt_def)
  then show ?thesis
    using srect_point_objective[of z pbar xs ds l] by (intro exI[of _ ?v]) (simp add: srect_point_simps)
qed

lemma linf_feasible_point:
  assumes d: "\<forall>a<length pbar. 0 \<le> ds a" "(\<Sum>a<length pbar. ds a) = 1"
  shows "\<exists>v. feasible (linf_model z pbar kappa) v \<and> (\<forall>a. v (D a) = ds a) \<and>
      (\<Sum>a<length pbar. v (X a) +
        (\<Sum>s<length (pbar ! a). pbar ! a ! s * (v (YN (yindex pbar a s)) - v (YP (yindex pbar a s))))) =
      (\<Sum>a<length pbar. ds a * nominal_return z pbar a +
        xs a * (1 - (\<Sum>s<length (pbar ! a). pbar ! a ! s)))"
proof -
  define l where "l = (\<Sum>a<length pbar. \<Sum>s<length (pbar ! a). \<bar>ds a * z ! a ! s - xs a\<bar>)"
  let ?v = "srect_point z pbar xs ds l"
  have l0: "0 \<le> l" unfolding l_def by (intro sum_nonneg) simp
  have theta: "- ?v Lambda * 1 +
      (\<Sum>s<length (pbar ! a). ?v (YP (yindex pbar a s)) + ?v (YN (yindex pbar a s))) \<le> 0"
    if a: "a < length pbar" for a
  proof -
    have "(\<Sum>s<length (pbar ! a). ?v (YP (yindex pbar a s)) + ?v (YN (yindex pbar a s))) =
        (\<Sum>s<length (pbar ! a). \<bar>ds a * z ! a ! s - xs a\<bar>)"
      by (rule sum.cong[OF refl]) (simp add: srect_point_abs[OF a])
    also have "\<dots> \<le> l"
      unfolding l_def
      by (rule row_le_double_sum[of "length pbar" "\<lambda>a. length (pbar ! a)"
            "\<lambda>a s. \<bar>ds a * z ! a ! s - xs a\<bar>", OF _ a]) simp
    finally show ?thesis by (simp add: srect_point_simps)
  qed
  have "feasible (linf_model z pbar kappa) ?v"
    unfolding feasible_linf_model
    using d l0 theta srect_point_P[of _ pbar _ z xs ds l]
    by (simp add: srect_point_simps)
  then show ?thesis
    using srect_point_objective[of z pbar xs ds l] by (intro exI[of _ ?v]) (simp add: srect_point_simps)
qed

lemma kappa_zero_optimum:
  fixes pbar z :: numvecvec
  defines "F \<equiv> \<lambda>v. (\<Sum>a<length pbar. v (X a) +
        (\<Sum>s<length (pbar ! a). pbar ! a ! s * (v (YN (yindex pbar a s)) - v (YP (yindex pbar a s)))))"
  assumes opt: "is_optimal m sol" and ms: "m_modelsense m = MAXIMIZE"
    and obj: "\<And>v. le_eval v (m_objective m) = F v"
    and feas: "\<And>v. feasible m v \<Longrightarrow>
        (\<forall>a<length pbar. \<forall>s<length (pbar ! a).
           v (X a) - v (YP (yindex pbar a s)) + v (YN (yindex pbar a s)) \<le> z ! a ! s * v (D a)) \<and>
        (\<forall>a<length pbar. 0 \<le> v (D a)) \<and> (\<Sum>a<length pbar. v (D a)) = 1"
    and point: "\<And>ds xs. \<forall>a<length pbar. 0 \<le> ds a \<Longrightarrow> (\<Sum>a<length pbar. ds a) = 1 \<Longrightarrow>
        \<exists>v. feasible m v \<and> F v = (\<Sum>a<length pbar. ds a * nominal_return z pbar a +
           xs a * (1 - (\<Sum>s<length (pbar ! a). pbar ! a ! s)))"
    and nn: "\<forall>a<length pbar. \<forall>s<length (pbar ! a). 0 \<le> pbar ! a ! s"
  shows "sol_ObjVal sol = (\<Sum>a<length pbar. sol_X sol (D a) * nominal_return z pbar a) \<and>
     (\<forall>ds. (\<forall>a<length pbar. 0 \<le> ds a) \<and> (\<Sum>a<length pbar. ds a) = 1 \<longrightarrow>
        (\<Sum>a<length pbar. ds a * nominal_return z pbar a) \<le> sol_ObjVal sol)"
proof -
  let ?n = "length pbar"
  let ?S = "\<lambda>a. \<Sum>s<length (pbar ! a). pbar ! a ! s"
  let ?q = "nominal_return z pbar"
  let ?d = "\<lambda>a. sol_X sol (D a)"
  from opt have fs: "feasible m (sol_X sol)" and val: "sol_ObjVal sol = F (sol_X sol)"
    and best: "\<And>v. feasible m v \<Longrightarrow> F v \<le> sol_ObjVal sol"
    using ms by (auto simp: is_optimal_def obj)
  from feas[OF fs] have dpol: "\<forall>a<?n. 0 \<le> ?d a" "(\<Sum>a<?n. ?d a) = 1" by simp_all
  have bound: "(\<Sum>a<?n. ds a * ?q a + xs a * (1 - ?S a)) \<le> sol_ObjVal sol"
    if "\<forall>a<?n. 0 \<le> ds a" "(\<Sum>a<?n. ds a) = 1" for ds xs
  proof -
    from point[OF that, of xs] obtain v where "feasible m v"
      and "F v = (\<Sum>a<?n. ds a * ?q a + xs a * (1 - ?S a))" by blast
    with best[of v] show ?thesis by simp
  qed
  have S1: "?S a0 = 1" if a0: "a0 < ?n" for a0
  proof (rule ccontr)
    assume ne: "?S a0 \<noteq> 1"
    define C where "C = (\<Sum>a<?n. ?d a * ?q a)"
    define t where "t = (sol_ObjVal sol - C + 1) / (1 - ?S a0)"
    have "(\<Sum>a<?n. ?d a * ?q a + (if a = a0 then t else 0) * (1 - ?S a)) =
        C + (\<Sum>a<?n. (if a = a0 then t else 0) * (1 - ?S a))"
      by (simp add: sum.distrib C_def)
    also have "(\<Sum>a<?n. (if a = a0 then t else 0) * (1 - ?S a)) = t * (1 - ?S a0)"
    proof -
      have "(\<Sum>a<?n. (if a = a0 then t else 0) * (1 - ?S a)) =
          (\<Sum>a<?n. if a = a0 then t * (1 - ?S a0) else 0)"
        by (rule sum.cong[OF refl]) simp
      also have "\<dots> = t * (1 - ?S a0)" using a0 by (simp add: sum.delta)
      finally show ?thesis .
    qed
    also have "t * (1 - ?S a0) = sol_ObjVal sol - C + 1"
      using ne by (simp add: t_def)
    finally have "(\<Sum>a<?n. ?d a * ?q a + (if a = a0 then t else 0) * (1 - ?S a)) =
        sol_ObjVal sol + 1" by simp
    with bound[OF dpol, of "\<lambda>a. if a = a0 then t else 0"] show False by simp
  qed
  have le: "(\<Sum>a<?n. ds a * ?q a) \<le> sol_ObjVal sol"
    if "\<forall>a<?n. 0 \<le> ds a" "(\<Sum>a<?n. ds a) = 1" for ds
    using bound[OF that, of "\<lambda>a. 0"] by simp
  have "F (sol_X sol) \<le> (\<Sum>a<?n. ?d a * ?q a)"
    unfolding F_def using feas[OF fs] nn S1 by (intro objective_le_nominal) simp_all
  with val le[OF dpol] have "sol_ObjVal sol = (\<Sum>a<?n. ?d a * ?q a)" by simp
  with le show ?thesis by blast
qed

lemma valid_dist_nonneg:
  assumes "list_all valid_dist pbar"
  shows "\<forall>a<length pbar. \<forall>s<length (pbar ! a). 0 \<le> pbar ! a ! s"
  using assms by (simp add: list_all_length valid_dist_def)

lemma is_policy_fun:
  assumes "is_policy n d"
  shows "\<forall>a<n. 0 \<le> d ! a" and "(\<Sum>a<n. d ! a) = 1"
  using assms sum_list_nth[of d] by (auto simp: is_policy_def list_all_length)

lemma is_policy_map:
  assumes "\<forall>a<n. 0 \<le> f a" "(\<Sum>a<n. f a) = 1"
  shows "is_policy n (map f [0..<n])"
  using assms by (simp add: is_policy_def list_all_length sum_list_upt)

lemma nominal_value_map:
  "nominal_value z pbar (map f [0..<length pbar]) = (\<Sum>a<length pbar. f a * nominal_return z pbar a)"
  by (simp add: nominal_value_def)

lemma kappa_zero_result:
  assumes k: "sol_ObjVal sol = (\<Sum>a<length pbar. sol_X sol (D a) * nominal_return z pbar a) \<and>
     (\<forall>ds. (\<forall>a<length pbar. 0 \<le> ds a) \<and> (\<Sum>a<length pbar. ds a) = 1 \<longrightarrow>
        (\<Sum>a<length pbar. ds a * nominal_return z pbar a) \<le> sol_ObjVal sol)"
    and pol: "\<forall>a<length pbar. 0 \<le> sol_X sol (D a)" "(\<Sum>a<length pbar. sol_X sol (D a)) = 1"
  shows "is_policy (length pbar) (map (\<lambda>i. sol_X sol (D i)) [0..<length pbar]) \<and>
     nominal_value z pbar (map (\<lambda>i. sol_X sol (D i)) [0..<length pbar]) = sol_ObjVal sol \<and>
     (\<forall>d. is_policy (length pbar) d \<longrightarrow> nominal_value z pbar d \<le> sol_ObjVal sol)"
proof -
  have "nominal_value z pbar d \<le> sol_ObjVal sol" if "is_policy (length pbar) d" for d
    using k[THEN conjunct2, rule_format, of "\<lambda>a. d ! a"] is_policy_fun[OF that]
    by (simp add: nominal_value_def)
  then show ?thesis
    using k is_policy_map[OF pol] by (simp add: nominal_value_map)
qed

text \<open>
  Claim C2, with the hypothesis it needs on the weights.  Let every row of \<open>pbar\<close> be a
  probability distribution and \<open>kappa = 0\<close>, and let the solver meet its contract on the
  model.  Then the objective that an operation returns is the non-robust value: it is
  the expected nominal return of the returned policy, and no policy has a larger one.
  For the L1 operation the weights must be omitted or strictly positive; the L-infinity
  operation does not read the status, so for it the status \<open>OPTIMAL\<close> is a hypothesis.
\<close>

theorem srect_kappa_zero_nominal:
  assumes "list_all valid_dist pbar"
  shows "(positive_weights pbar w \<and>
          (\<forall>m. srect_l1_build z pbar 0 w [] = Inr m \<longrightarrow> solves optimize m) \<and>
          srect_l1_solve_gurobi optimize z pbar 0 w [] = Inr (obj, policy, budgets) \<longrightarrow>
            is_policy (length pbar) policy \<and> nominal_value z pbar policy = obj \<and>
            (\<forall>d. is_policy (length pbar) d \<longrightarrow> nominal_value z pbar d \<le> obj)) \<and>
         ((\<forall>m. srect_linf_build z pbar 0 w = Inr m \<longrightarrow>
              solves optimize m \<and> r_status (optimize m) = OPTIMAL) \<and>
          srect_linf_solve_gurobi optimize z pbar 0 w = Inr (obj', policy', budgets') \<longrightarrow>
            is_policy (length pbar) policy' \<and> nominal_value z pbar policy' = obj' \<and>
            (\<forall>d. is_policy (length pbar) d \<longrightarrow> nominal_value z pbar d \<le> obj'))"
proof (intro conjI impI)
  let ?m = "l1_model z pbar 0 w []"
  assume a: "positive_weights pbar w \<and>
          (\<forall>m. srect_l1_build z pbar 0 w [] = Inr m \<longrightarrow> solves optimize m) \<and>
          srect_l1_solve_gurobi optimize z pbar 0 w [] = Inr (obj, policy, budgets)"
  then have pw: "positive_weights pbar w"
    and r: "srect_l1_solve_gurobi optimize z pbar 0 w [] = Inr (obj, policy, budgets)" by simp_all
  from srect_l1_solve_Inr[OF r] obtain sol where
    b: "srect_l1_build z pbar 0 w [] = Inr ?m"
    and s: "r_status (optimize ?m) = OPTIMAL" "r_solution (optimize ?m) = Some sol"
    and o: "obj = sol_ObjVal sol" and p: "policy = map (\<lambda>i. sol_X sol (D i)) [0..<length pbar]"
    by blast
  from a b s have opt: "is_optimal ?m sol" by (simp add: solves_def)
  then have fs: "feasible ?m (sol_X sol)" by (simp add: is_optimal_def)
  have k: "sol_ObjVal sol = (\<Sum>a<length pbar. sol_X sol (D a) * nominal_return z pbar a) \<and>
     (\<forall>ds. (\<forall>a<length pbar. 0 \<le> ds a) \<and> (\<Sum>a<length pbar. ds a) = 1 \<longrightarrow>
        (\<Sum>a<length pbar. ds a * nominal_return z pbar a) \<le> sol_ObjVal sol)"
  proof (rule kappa_zero_optimum[OF opt])
    show "m_modelsense ?m = MAXIMIZE" by (simp add: l1_model_def)
    show "le_eval v (m_objective ?m) = (\<Sum>a<length pbar. v (X a) +
        (\<Sum>s<length (pbar ! a). pbar ! a ! s * (v (YN (yindex pbar a s)) - v (YP (yindex pbar a s)))))" for v
      by (simp add: le_eval_l1_objective)
    show "(\<forall>a<length pbar. \<forall>s<length (pbar ! a).
           v (X a) - v (YP (yindex pbar a s)) + v (YN (yindex pbar a s)) \<le> z ! a ! s * v (D a)) \<and>
        (\<forall>a<length pbar. 0 \<le> v (D a)) \<and> (\<Sum>a<length pbar. v (D a)) = 1"
      if "feasible ?m v" for v
      using that by (simp add: feasible_l1_model)
    show "\<exists>v. feasible ?m v \<and> (\<Sum>a<length pbar. v (X a) +
        (\<Sum>s<length (pbar ! a). pbar ! a ! s * (v (YN (yindex pbar a s)) - v (YP (yindex pbar a s))))) =
        (\<Sum>a<length pbar. ds a * nominal_return z pbar a +
           xs a * (1 - (\<Sum>s<length (pbar ! a). pbar ! a ! s)))"
      if "\<forall>a<length pbar. 0 \<le> ds a" "(\<Sum>a<length pbar. ds a) = 1" for ds xs
      using l1_feasible_point[OF that pw, of z 0 xs] by blast
    show "\<forall>a<length pbar. \<forall>s<length (pbar ! a). 0 \<le> pbar ! a ! s"
      using assms by (rule valid_dist_nonneg)
  qed
  have "is_policy (length pbar) (map (\<lambda>i. sol_X sol (D i)) [0..<length pbar]) \<and>
     nominal_value z pbar (map (\<lambda>i. sol_X sol (D i)) [0..<length pbar]) = sol_ObjVal sol \<and>
     (\<forall>d. is_policy (length pbar) d \<longrightarrow> nominal_value z pbar d \<le> sol_ObjVal sol)"
    using fs by (intro kappa_zero_result[OF k]) (simp_all add: feasible_l1_model)
  then show "is_policy (length pbar) policy" "nominal_value z pbar policy = obj"
    "\<forall>d. is_policy (length pbar) d \<longrightarrow> nominal_value z pbar d \<le> obj"
    by (simp_all add: o p)
next
  let ?m = "linf_model z pbar 0"
  assume a: "(\<forall>m. srect_linf_build z pbar 0 w = Inr m \<longrightarrow>
              solves optimize m \<and> r_status (optimize m) = OPTIMAL) \<and>
          srect_linf_solve_gurobi optimize z pbar 0 w = Inr (obj', policy', budgets')"
  then have r: "srect_linf_solve_gurobi optimize z pbar 0 w = Inr (obj', policy', budgets')"
    by simp
  from srect_linf_solve_Inr[OF r] obtain sol where
    b: "srect_linf_build z pbar 0 w = Inr ?m"
    and s: "r_solution (optimize ?m) = Some sol"
    and o: "obj' = sol_ObjVal sol" and p: "policy' = map (\<lambda>i. sol_X sol (D i)) [0..<length pbar]"
    by blast
  from a b s have opt: "is_optimal ?m sol" by (simp add: solves_def)
  then have fs: "feasible ?m (sol_X sol)" by (simp add: is_optimal_def)
  have k: "sol_ObjVal sol = (\<Sum>a<length pbar. sol_X sol (D a) * nominal_return z pbar a) \<and>
     (\<forall>ds. (\<forall>a<length pbar. 0 \<le> ds a) \<and> (\<Sum>a<length pbar. ds a) = 1 \<longrightarrow>
        (\<Sum>a<length pbar. ds a * nominal_return z pbar a) \<le> sol_ObjVal sol)"
  proof (rule kappa_zero_optimum[OF opt])
    show "m_modelsense ?m = MAXIMIZE" by (simp add: linf_model_def)
    show "le_eval v (m_objective ?m) = (\<Sum>a<length pbar. v (X a) +
        (\<Sum>s<length (pbar ! a). pbar ! a ! s * (v (YN (yindex pbar a s)) - v (YP (yindex pbar a s)))))" for v
      by (simp add: le_eval_linf_objective)
    show "(\<forall>a<length pbar. \<forall>s<length (pbar ! a).
           v (X a) - v (YP (yindex pbar a s)) + v (YN (yindex pbar a s)) \<le> z ! a ! s * v (D a)) \<and>
        (\<forall>a<length pbar. 0 \<le> v (D a)) \<and> (\<Sum>a<length pbar. v (D a)) = 1"
      if "feasible ?m v" for v
      using that by (simp add: feasible_linf_model)
    show "\<exists>v. feasible ?m v \<and> (\<Sum>a<length pbar. v (X a) +
        (\<Sum>s<length (pbar ! a). pbar ! a ! s * (v (YN (yindex pbar a s)) - v (YP (yindex pbar a s))))) =
        (\<Sum>a<length pbar. ds a * nominal_return z pbar a +
           xs a * (1 - (\<Sum>s<length (pbar ! a). pbar ! a ! s)))"
      if "\<forall>a<length pbar. 0 \<le> ds a" "(\<Sum>a<length pbar. ds a) = 1" for ds xs
      using linf_feasible_point[OF that, of z 0 xs] by blast
    show "\<forall>a<length pbar. \<forall>s<length (pbar ! a). 0 \<le> pbar ! a ! s"
      using assms by (rule valid_dist_nonneg)
  qed
  have "is_policy (length pbar) (map (\<lambda>i. sol_X sol (D i)) [0..<length pbar]) \<and>
     nominal_value z pbar (map (\<lambda>i. sol_X sol (D i)) [0..<length pbar]) = sol_ObjVal sol \<and>
     (\<forall>d. is_policy (length pbar) d \<longrightarrow> nominal_value z pbar d \<le> sol_ObjVal sol)"
    using fs by (intro kappa_zero_result[OF k]) (simp_all add: feasible_linf_model)
  then show "is_policy (length pbar) policy'" "nominal_value z pbar policy' = obj'"
    "\<forall>d. is_policy (length pbar) d \<longrightarrow> nominal_value z pbar d \<le> obj'"
    by (simp_all add: o p)
qed

lemma is_optimal_scenario:
  fixes v0 :: "grb_var \<Rightarrow> real" and m :: grb_model
  defines "v0 \<equiv> (\<lambda>x. 0)(X 0 := 1/2, YN 0 := 1/2, YP 1 := 1/2, Lambda := 1, D 0 := 1)"
  assumes "m = l1_model [[1, 0], [0, 1]] [[1/2, 1/2], [1/2, 1/2]] 0 [] [] \<or>
           m = linf_model [[1, 0], [0, 1]] [[1/2, 1/2], [1/2, 1/2]] 0"
  shows "is_optimal m \<lparr>sol_ObjVal = 1/2, sol_X = v0, sol_Pi = (\<lambda>j. 0)\<rparr>"
proof -
  let ?z = "[[1, 0], [0, 1 :: real]]" and ?p = "[[1/2, 1/2], [1/2, 1/2 :: real]]"
  let ?F = "\<lambda>v. (\<Sum>a<length ?p. v (X a) +
        (\<Sum>s<length (?p ! a). ?p ! a ! s * (v (YN (yindex ?p a s)) - v (YP (yindex ?p a s)))))"
  have ms: "m_modelsense m = MAXIMIZE" using assms(2) by (auto simp: l1_model_def linf_model_def)
  have obj: "le_eval v (m_objective m) = ?F v" for v
    using assms(2) by (auto simp only: le_eval_l1_objective le_eval_linf_objective)
  have f0: "feasible m v0"
    using assms(2)
    by (auto simp: v0_def feasible_l1_model feasible_linf_model yindex_def less_Suc_eq
        all_conj_distrib numeral_2_eq_2 lessThan_Suc nth_Cons')
  have F0: "?F v0 = 1/2"
    by (simp add: v0_def yindex_def lessThan_Suc numeral_2_eq_2 nth_Cons')
  have q: "nominal_return ?z ?p a = 1/2" if "a < 2" for a
    using that by (auto simp: nominal_return_def less_Suc_eq numeral_2_eq_2 lessThan_Suc)
  have up: "?F v \<le> 1/2" if fv: "feasible m v" for v
  proof -
    have gen: "(\<forall>a<length p. \<forall>s<length (p ! a).
        v (X a) - v (YP (yindex p a s)) + v (YN (yindex p a s)) \<le> z ! a ! s * v (D a)) \<and>
        (\<Sum>a<length p. v (D a)) = 1"
      if "feasible (l1_model z p 0 [] []) v \<or> feasible (linf_model z p 0) v" for z p
      using that by (auto simp: feasible_l1_model feasible_linf_model)
    from fv assms(2) have "feasible (l1_model ?z ?p 0 [] []) v \<or> feasible (linf_model ?z ?p 0) v"
      by blast
    from gen[OF this] have P: "\<forall>a<length ?p. \<forall>s<length (?p ! a).
        v (X a) - v (YP (yindex ?p a s)) + v (YN (yindex ?p a s)) \<le> ?z ! a ! s * v (D a)"
      and d: "(\<Sum>a<length ?p. v (D a)) = 1"
      by blast+
    have "?F v \<le> (\<Sum>a<length ?p. v (D a) * nominal_return ?z ?p a)"
      by (rule objective_le_nominal[OF P])
         (auto simp: less_Suc_eq numeral_2_eq_2 lessThan_Suc)
    also have "\<dots> = (\<Sum>a<length ?p. v (D a) * (1/2))"
      by (rule sum.cong[OF refl]) (simp add: q)
    also have "\<dots> = 1/2" using d by (simp add: sum_distrib_right[symmetric])
    finally show ?thesis .
  qed
  show ?thesis
    unfolding is_optimal_def using f0 F0 up ms by (simp add: obj)
qed

text \<open>
  The scenario of the specification: two actions with two outcomes each,
  \<open>z = [[1, 0], [0, 1]]\<close>, \<open>pbar = [[0.5, 0.5], [0.5, 0.5]]\<close>, \<open>kappa = 0\<close>, and a solver
  that exposes an optimal solution.  Both operations return the objective \<open>0.5\<close>, and it
  is the expected nominal return of the returned policy.
\<close>

theorem srect_kappa_zero_nominal_witness:
  "\<exists>optimize policy budgets policy' budgets'.
     srect_l1_solve_gurobi optimize [[1, 0], [0, 1]] [[1/2, 1/2], [1/2, 1/2]] 0 [] [] =
       Inr (1/2, policy, budgets) \<and>
     nominal_value [[1, 0], [0, 1]] [[1/2, 1/2], [1/2, 1/2]] policy = 1/2 \<and>
     srect_linf_solve_gurobi optimize [[1, 0], [0, 1]] [[1/2, 1/2], [1/2, 1/2]] 0 [] =
       Inr (1/2, policy', budgets') \<and>
     nominal_value [[1, 0], [0, 1]] [[1/2, 1/2], [1/2, 1/2]] policy' = 1/2"
proof -
  let ?z = "[[1, 0], [0, 1 :: real]]" and ?p = "[[1/2, 1/2], [1/2, 1/2 :: real]]"
  let ?sol = "\<lparr>sol_ObjVal = 1/2,
      sol_X = (\<lambda>x. 0)(X 0 := 1/2, YN 0 := 1/2, YP 1 := 1/2, Lambda := 1, D 0 := 1),
      sol_Pi = (\<lambda>j. 0)\<rparr>"
  define optimize :: grb_optimize where
    "optimize = (\<lambda>m. \<lparr>r_status = OPTIMAL, r_solution = Some ?sol\<rparr>)"
  have cov: "rows_cover ?p ?z" by (simp add: rows_cover_simps)
  have vd: "list_all valid_dist ?p" by (simp add: valid_dist_def EPSILON_def)
  have b1: "srect_l1_build ?z ?p 0 [] [] = Inr (l1_model ?z ?p 0 [] [])"
    using cov by (simp add: srect_l1_build_closed)
  have b2: "srect_linf_build ?z ?p 0 [] = Inr (linf_model ?z ?p 0)"
    using cov by (simp add: srect_linf_build_closed)
  have s1: "solves optimize (l1_model ?z ?p 0 [] [])"
    using is_optimal_scenario[of "l1_model ?z ?p 0 [] []"] by (simp add: solves_def optimize_def)
  have s2: "solves optimize (linf_model ?z ?p 0)"
    using is_optimal_scenario[of "linf_model ?z ?p 0"] by (simp add: solves_def optimize_def)
  have st: "r_status (optimize m) = OPTIMAL" for m by (simp add: optimize_def)
  obtain policy budgets where
    r1: "srect_l1_solve_gurobi optimize ?z ?p 0 [] [] = Inr (1/2, policy, budgets)"
    using srect_l1_solve_Inr_ex[of ?p ?z "[]" optimize 0 ?sol] cov
    by (auto simp: optimize_def)
  obtain policy' budgets' where
    r2: "srect_linf_solve_gurobi optimize ?z ?p 0 [] = Inr (1/2, policy', budgets')"
    using srect_linf_solve_Inr_ex[of ?p ?z "[]" optimize 0 ?sol] cov
    by (auto simp: optimize_def)
  have "nominal_value ?z ?p policy = 1/2" "nominal_value ?z ?p policy' = 1/2"
    using srect_kappa_zero_nominal[OF vd, of "[]" ?z optimize "1/2" policy budgets
        "1/2" policy' budgets'] b1 b2 s1 s2 st r1 r2
    by (simp_all add: positive_weights_def)
  with r1 r2 show ?thesis by blast
qed

text \<open>
  Claim C2 as stated fails for the L1 operation when a weight is zero.  One action,
  \<open>z = [[1, 0]]\<close>, \<open>pbar = [[0.5, 0.5]]\<close>, \<open>w = [[0, 0]]\<close>, \<open>kappa = 0\<close>: the row of
  \<open>pbar\<close> is a distribution and \<open>w\<close> has the shape of \<open>pbar\<close>; the solution with \<open>d = 1\<close>
  and every other variable zero is optimal for the model, so the operation returns the
  objective \<open>0\<close>; the non-robust value is \<open>0.5\<close>.
\<close>

theorem srect_l1_zero_weights:
  "list_all valid_dist [[1/2, 1/2]] \<and> rows_cover [[1/2, 1/2]] [[0, 0]] \<and>
   is_optimal (l1_model [[1, 0]] [[1/2, 1/2]] 0 [[0, 0]] [])
     \<lparr>sol_ObjVal = 0, sol_X = (\<lambda>x. 0)(D 0 := 1), sol_Pi = (\<lambda>j. 0)\<rparr> \<and>
   srect_l1_solve_gurobi
     (\<lambda>m. \<lparr>r_status = OPTIMAL,
            r_solution = Some \<lparr>sol_ObjVal = 0, sol_X = (\<lambda>x. 0)(D 0 := 1), sol_Pi = (\<lambda>j. 0)\<rparr>\<rparr>)
     [[1, 0]] [[1/2, 1/2]] 0 [[0, 0]] [] = Inr (0, [1], [0, 0]) \<and>
   is_policy 1 [1] \<and> nominal_value [[1, 0]] [[1/2, 1/2]] [1] = 1/2"
proof -
  let ?z = "[[1, 0 :: real]]" and ?p = "[[1/2, 1/2 :: real]]" and ?w = "[[0, 0 :: real]]"
  let ?m = "l1_model ?z ?p 0 ?w []"
  let ?v0 = "(\<lambda>x. 0 :: real)(D 0 := 1)"
  let ?sol = "\<lparr>sol_ObjVal = 0, sol_X = ?v0, sol_Pi = (\<lambda>j. 0)\<rparr>"
  have vd: "list_all valid_dist ?p" by (simp add: valid_dist_def EPSILON_def)
  have cov: "rows_cover ?p ?z" "rows_cover ?p ?w" by (simp_all add: rows_cover_simps)
  have f: "feasible ?m ?v0"
    by (simp add: feasible_l1_model yindex_def less_Suc_eq all_conj_distrib numeral_2_eq_2)
  have o: "le_eval ?v0 (m_objective ?m) = 0"
    by (simp add: le_eval_l1_objective yindex_def lessThan_Suc numeral_2_eq_2)
  have u: "le_eval v (m_objective ?m) \<le> 0" if "feasible ?m v" for v
  proof -
    from that have c: "0 \<le> v (YP 0)" "0 \<le> v (YN 0)" "0 \<le> v (YP 1)" "0 \<le> v (YN 1)"
      "0 \<le> v Lambda" "v (D 0) = 1"
      "v (X 0) - v (YP 0) + v (YN 0) \<le> v (D 0)" "v (X 0) - v (YP 1) + v (YN 1) \<le> 0"
      "v (YP 0) + v (YN 0) \<le> 0" "v (YP 1) + v (YN 1) \<le> 0"
      by (simp_all add: feasible_l1_model yindex_def less_Suc_eq all_conj_distrib numeral_2_eq_2)
    have e: "le_eval v (m_objective ?m) =
        v (X 0) + (1/2 * (v (YN 0) - v (YP 0)) + 1/2 * (v (YN 1) - v (YP 1))) - 0 * v Lambda"
      by (simp add: le_eval_l1_objective yindex_def lessThan_Suc numeral_2_eq_2)
    show ?thesis using c e by argo
  qed
  have opt: "is_optimal ?m ?sol"
    unfolding is_optimal_def using f o u by (simp add: l1_model_def)
  have b: "srect_l1_build ?z ?p 0 ?w [] = Inr ?m"
    using cov by (simp add: srect_l1_build_closed)
  have l: "length (filter (\<lambda>j. c_name (m_constrs ?m ! j) = ''psi'') [0..<length (m_constrs ?m)]) = 2"
    by (simp only: length_psi_indices) simp
  have bud: "map (\<lambda>j. 0 :: real)
      (filter (\<lambda>j. c_name (m_constrs ?m ! j) = ''psi'') [0..<length (m_constrs ?m)]) = [0, 0]"
    by (simp only: map_replicate_const l) (simp add: numeral_2_eq_2)
  have pol: "map (\<lambda>i. if i = 0 then 1 else 0) [0..<Suc 0] = [1 :: real]" by simp
  have r: "srect_l1_solve_gurobi (\<lambda>m. \<lparr>r_status = OPTIMAL, r_solution = Some ?sol\<rparr>)
      ?z ?p 0 ?w [] = Inr (0, [1], [0, 0])"
    unfolding srect_l1_solve_gurobi_def b
    by (simp add: srect_l1_extract_def Let_def fold_push_back bud pol del: upt_Suc)
  have n: "is_policy 1 [1]" "nominal_value ?z ?p [1] = 1/2"
    by (simp_all add: is_policy_def nominal_value_def nominal_return_def lessThan_Suc numeral_2_eq_2)
  from vd cov opt r n show ?thesis by simp
qed

section \<open>The budgets as dual values: what holds at the status OPTIMAL\<close>

lemma concat_map_concat: "concat (map f (concat xss)) = concat (map (\<lambda>xs. concat (map f xs)) xss)"
  by (induction xss) simp_all

lemma l1_rows_as_pairs:
  "concat (map (l1_row_constrs z pbar w) [0..<length pbar]) =
     concat (map (\<lambda>(a, s). [P_constr z a s (yindex pbar a s), psi_constr w a s (yindex pbar a s)])
       (srect_pairs pbar))"
  by (simp add: srect_pairs_def concat_map_concat l1_row_constrs_def[abs_def] comp_def)

lemma l1_weights_as_pairs:
  "l1_weights pbar w = map (\<lambda>(a, s). if w = [] then 1 else w ! a ! s) (srect_pairs pbar)"
  by (simp add: srect_pairs_def l1_weights_def map_concat comp_def)

lemma two_per_element_length:
  "length (pre @ concat (map (\<lambda>e. [A e, B e]) es)) = length pre + 2 * length es"
  by (induction es) simp_all

lemma two_per_element_nth:
  assumes "i < length es"
  shows "(pre @ concat (map (\<lambda>e. [A e, B e]) es)) ! (length pre + 2 * i) = A (es ! i)"
    and "(pre @ concat (map (\<lambda>e. [A e, B e]) es)) ! (length pre + 2 * i + 1) = B (es ! i)"
proof -
  have "concat (map (\<lambda>e. [A e, B e]) es) ! (2 * i) = A (es ! i) \<and>
        concat (map (\<lambda>e. [A e, B e]) es) ! (2 * i + 1) = B (es ! i)"
    using assms
  proof (induction es arbitrary: i)
    case Nil
    then show ?case by simp
  next
    case (Cons e es)
    show ?case
    proof (cases i)
      case 0
      then show ?thesis by simp
    next
      case (Suc k)
      with Cons.prems have "k < length es" by simp
      from Cons.IH[OF this] Suc show ?thesis by simp
    qed
  qed
  then show "(pre @ concat (map (\<lambda>e. [A e, B e]) es)) ! (length pre + 2 * i) = A (es ! i)"
    and "(pre @ concat (map (\<lambda>e. [A e, B e]) es)) ! (length pre + 2 * i + 1) = B (es ! i)"
    by (simp_all add: nth_append)
qed

lemma two_per_element_sum:
  fixes F :: "nat \<Rightarrow> 'c \<Rightarrow> real"
  shows "(\<Sum>j<length (pre @ concat (map (\<lambda>e. [A e, B e]) es)).
            F j ((pre @ concat (map (\<lambda>e. [A e, B e]) es)) ! j)) =
         (\<Sum>j<length pre. F j (pre ! j)) +
         (\<Sum>i<length es. F (length pre + 2 * i) (A (es ! i)) +
                          F (length pre + 2 * i + 1) (B (es ! i)))"
proof (induction es rule: rev_induct)
  case Nil
  show ?case by simp
next
  case (snoc e es)
  let ?cs = "pre @ concat (map (\<lambda>e. [A e, B e]) es)"
  let ?L = "length pre + 2 * length es"
  have len: "length ?cs = ?L" by (rule two_per_element_length)
  have app: "pre @ concat (map (\<lambda>e. [A e, B e]) (es @ [e])) = ?cs @ [A e, B e]" by simp
  have 1: "(\<Sum>j<length (?cs @ [A e, B e]). F j ((?cs @ [A e, B e]) ! j)) =
      (\<Sum>j<?L. F j ((?cs @ [A e, B e]) ! j)) + F ?L (A e) + F (?L + 1) (B e)"
    using len by (simp add: nth_append)
  have nth_l: "(?cs @ [A e, B e]) ! j = ?cs ! j" if "j < ?L" for j
    using that len nth_append_left[of j ?cs "[A e, B e]"] by simp
  have 2: "(\<Sum>j<?L. F j ((?cs @ [A e, B e]) ! j)) = (\<Sum>j<?L. F j (?cs ! j))"
    by (intro sum.cong[OF refl]) (simp only: nth_l lessThan_iff)
  have 3: "(\<Sum>i<length (es @ [e]). F (length pre + 2 * i) (A ((es @ [e]) ! i)) +
                          F (length pre + 2 * i + 1) (B ((es @ [e]) ! i))) =
      (\<Sum>i<length es. F (length pre + 2 * i) (A (es ! i)) +
                          F (length pre + 2 * i + 1) (B (es ! i))) +
      (F ?L (A e) + F (?L + 1) (B e))"
  proof -
    have "(\<Sum>i<length es. F (length pre + 2 * i) (A ((es @ [e]) ! i)) +
                          F (length pre + 2 * i + 1) (B ((es @ [e]) ! i))) =
        (\<Sum>i<length es. F (length pre + 2 * i) (A (es ! i)) +
                          F (length pre + 2 * i + 1) (B (es ! i)))"
      by (intro sum.cong[OF refl]) (simp add: nth_append)
    then show ?thesis by simp
  qed
  show ?case
    unfolding app 1 2 3 using snoc.IH len by simp
qed

lemma two_per_element_filter:
  assumes "\<And>c. c \<in> set pre \<Longrightarrow> \<not> Q c" "\<And>e. \<not> Q (A e)" "\<And>e. Q (B e)"
  shows "filter (\<lambda>j. Q ((pre @ concat (map (\<lambda>e. [A e, B e]) es)) ! j))
           [0..<length (pre @ concat (map (\<lambda>e. [A e, B e]) es))] =
         map (\<lambda>i. length pre + 2 * i + 1) [0..<length es]"
proof (induction es rule: rev_induct)
  case Nil
  show ?case using assms(1) by (simp add: filter_empty_conv)
next
  case (snoc e es)
  let ?cs = "pre @ concat (map (\<lambda>e. [A e, B e]) es)"
  let ?L = "length pre + 2 * length es"
  have len: "length ?cs = ?L" by (rule two_per_element_length)
  have app: "pre @ concat (map (\<lambda>e. [A e, B e]) (es @ [e])) = ?cs @ [A e, B e]" by simp
  have upt: "[0..<length (?cs @ [A e, B e])] = [0..<?L] @ [?L, ?L + 1]"
    using len by (simp add: upt_rec[of ?L])
  have nth_l: "(?cs @ [A e, B e]) ! j = ?cs ! j" if "j < ?L" for j
    using that len nth_append_left[of j ?cs "[A e, B e]"] by simp
  have f: "filter (\<lambda>j. Q ((?cs @ [A e, B e]) ! j)) [0..<?L] = filter (\<lambda>j. Q (?cs ! j)) [0..<?L]"
    by (intro filter_cong[OF refl]) (simp add: nth_l del: append_assoc)
  show ?case
    unfolding app upt using snoc.IH len assms(2,3) f
    by (simp add: nth_append)
qed

lemma le_coeff_zero: "le_coeff le_zero x = 0"
  by (simp add: le_zero_def)

lemma le_coeff_var: "le_coeff (le_var y) x = (if y = x then 1 else 0)"
  by (simp add: le_var_def)

lemma le_coeff_const: "le_coeff (le_const c) x = 0"
  by (simp add: le_const_def)

lemma le_coeff_scale: "le_coeff (le_scale k e) x = k * le_coeff e x"
proof (cases e)
  case (LinExpr ts c)
  have "(\<Sum>(q, y) \<leftarrow> map (\<lambda>(q, x). (k * q, x)) ts. if y = x then q else 0) =
      k * (\<Sum>(q, y) \<leftarrow> ts. if y = x then q else 0)"
    by (induction ts) (auto simp: algebra_simps)
  with LinExpr show ?thesis by simp
qed

lemma le_coeff_neg: "le_coeff (le_neg e) x = - le_coeff e x"
  by (simp add: le_neg_def le_coeff_scale)

lemma le_coeff_add: "le_coeff (le_add e f) x = le_coeff e x + le_coeff f x"
  by (cases e; cases f) simp

lemma le_coeff_sub: "le_coeff (le_sub e f) x = le_coeff e x - le_coeff f x"
  by (simp add: le_sub_def le_coeff_add le_coeff_neg)

lemma le_coeff_sum: "le_coeff (le_sum es) x = (\<Sum>e\<leftarrow>es. le_coeff e x)"
  by (induction es) (simp_all add: le_sum_Nil le_sum_Cons le_coeff_zero le_coeff_add)

lemma le_coeff_addTerms_D: "le_coeff (le_addTerms cs (map D as)) Lambda = 0"
proof -
  have "(\<Sum>(q, y) \<leftarrow> zip cs (map D as). if y = Lambda then q else 0) = 0"
    by (induction cs as rule: list_induct2') simp_all
  then show ?thesis by (simp add: le_addTerms_def)
qed

lemmas le_coeff_simps = le_coeff_zero le_coeff_var le_coeff_const le_coeff_scale le_coeff_neg
  le_coeff_add le_coeff_sub le_coeff_sum

lemma row_coeff_Lambda:
  "row_coeff (P_constr z a s i) Lambda = 0"
  "row_coeff (psi_constr w a s i) Lambda = - (if w = [] then 1 else w ! a ! s)"
  "row_coeff (pin_constr pe k) Lambda = 0"
  "row_coeff (sum_constr n nm) Lambda = 0"
  by (simp_all add: row_coeff_def P_constr_def psi_constr_def pin_constr_def sum_constr_def
      le_coeff_simps le_coeff_addTerms_D)

lemma sum_list_zero: "(\<And>x. x \<in> set xs \<Longrightarrow> f x = (0::real)) \<Longrightarrow> (\<Sum>x\<leftarrow>xs. f x) = 0"
  by (induction xs) simp_all

lemma le_coeff_objective_Lambda:
  "le_coeff (le_add (le_sum (map (l1_row_obj pbar) [0..<length pbar]))
       (le_scale kappa (le_neg (le_var Lambda)))) Lambda = - kappa"
proof -
  have "le_coeff (l1_row_obj pbar a) Lambda = 0" for a
    by (simp add: l1_row_obj_def le_coeff_simps obj_pair_def comp_def sum_list_zero)
  then show ?thesis
    by (simp add: le_coeff_simps comp_def sum_list_zero)
qed

lemma length_srect_pairs: "length (srect_pairs pbar) = sum_list (map length pbar)"
  unfolding srect_pairs_def by (rule length_concat_rows)

lemma l1_constrs_as_pairs:
  "m_constrs (l1_model z pbar kappa w pe) =
     l1_policy_constrs pe (length pbar) @
     concat (map (\<lambda>e. [P_constr z (fst e) (snd e) (yindex pbar (fst e) (snd e)),
                         psi_constr w (fst e) (snd e) (yindex pbar (fst e) (snd e))])
       (srect_pairs pbar))"
  by (simp add: l1_model_def l1_rows_as_pairs case_prod_unfold)

lemma l1_psi_indices:
  "filter (\<lambda>j. c_name (m_constrs (l1_model z pbar kappa w pe) ! j) = ''psi'')
       [0..<length (m_constrs (l1_model z pbar kappa w pe))] =
     map (\<lambda>i. length (l1_policy_constrs pe (length pbar)) + 2 * i + 1)
       [0..<sum_list (map length pbar)]"
  unfolding l1_constrs_as_pairs
  by (subst two_per_element_filter)
     (auto simp: l1_policy_constrs_def pin_constr_def sum_constr_def P_constr_def psi_constr_def
        length_srect_pairs split: if_splits)

lemma l1_reduced_cost_Lambda:
  "reduced_cost (l1_model z pbar kappa w pe) duals Lambda =
     - kappa + (\<Sum>i<sum_list (map length pbar).
        l1_weights pbar w ! i * duals (length (l1_policy_constrs pe (length pbar)) + 2 * i + 1))"
proof -
  let ?pol = "l1_policy_constrs pe (length pbar)"
  let ?A = "\<lambda>e. P_constr z (fst e) (snd e) (yindex pbar (fst e) (snd e))"
  let ?B = "\<lambda>e. psi_constr w (fst e) (snd e) (yindex pbar (fst e) (snd e))"
  let ?F = "\<lambda>j c. duals j * row_coeff c Lambda"
  have pol0: "(\<Sum>j<length ?pol. ?F j (?pol ! j)) = 0"
  proof (rule sum.neutral, rule ballI)
    fix j assume "j \<in> {..<length ?pol}"
    then have "?pol ! j \<in> set ?pol" by simp
    then have "row_coeff (?pol ! j) Lambda = 0"
      by (auto simp: l1_policy_constrs_def row_coeff_Lambda split: if_splits)
    then show "?F j (?pol ! j) = 0" by simp
  qed
  have w: "l1_weights pbar w ! i = (if w = [] then 1 else w ! fst (srect_pairs pbar ! i) ! snd (srect_pairs pbar ! i))"
    if "i < length (srect_pairs pbar)" for i
    using that by (simp add: l1_weights_as_pairs case_prod_beta)
  have "(\<Sum>j<length (m_constrs (l1_model z pbar kappa w pe)).
          duals j * row_coeff (m_constrs (l1_model z pbar kappa w pe) ! j) Lambda) =
      (\<Sum>j<length ?pol. ?F j (?pol ! j)) +
      (\<Sum>i<length (srect_pairs pbar). ?F (length ?pol + 2 * i) (?A (srect_pairs pbar ! i)) +
                          ?F (length ?pol + 2 * i + 1) (?B (srect_pairs pbar ! i)))"
    unfolding l1_constrs_as_pairs by (rule two_per_element_sum)
  also have "\<dots> = (\<Sum>i<length (srect_pairs pbar).
      - (l1_weights pbar w ! i * duals (length ?pol + 2 * i + 1)))"
  proof -
    have "(\<Sum>i<length (srect_pairs pbar). ?F (length ?pol + 2 * i) (?A (srect_pairs pbar ! i)) +
                          ?F (length ?pol + 2 * i + 1) (?B (srect_pairs pbar ! i))) =
        (\<Sum>i<length (srect_pairs pbar).
          - (l1_weights pbar w ! i * duals (length ?pol + 2 * i + 1)))"
      by (rule sum.cong[OF refl]) (simp add: row_coeff_Lambda w)
    then show ?thesis unfolding pol0 by simp
  qed
  also have "\<dots> = - (\<Sum>i<sum_list (map length pbar).
      l1_weights pbar w ! i * duals (length ?pol + 2 * i + 1))"
    by (simp add: sum_negf length_srect_pairs)
  finally show ?thesis
    unfolding reduced_cost_def
    by (simp add: l1_model_def le_coeff_objective_Lambda)
qed

lemma named_duals_nonneg:
  assumes d: "is_dual_optimal m sol" and ms: "m_modelsense m = MAXIMIZE"
    and le: "\<And>c. c \<in> set (m_constrs m) \<Longrightarrow> c_name c = nm \<Longrightarrow> c_sense c = LESS_EQUAL"
  shows "list_all (\<lambda>b. 0 \<le> b)
     (map (sol_Pi sol) (filter (\<lambda>j. c_name (m_constrs m ! j) = nm) [0..<length (m_constrs m)]))"
proof -
  have "0 \<le> sol_Pi sol j" if "j < length (m_constrs m)" "c_name (m_constrs m ! j) = nm" for j
  proof -
    from that le have "c_sense (m_constrs m ! j) = LESS_EQUAL" by simp
    moreover from d that(1) have
      "dual_sign_ok (m_modelsense m) (c_sense (m_constrs m ! j)) (sol_Pi sol j)"
      by (simp add: is_dual_optimal_def)
    ultimately show ?thesis using ms by simp
  qed
  then show ?thesis by (simp add: list_all_iff)
qed

lemma psi_less_equal:
  assumes "c \<in> set (m_constrs (l1_model z pbar kappa w pe))" "c_name c = ''psi''"
  shows "c_sense c = LESS_EQUAL"
proof -
  from assms have "c \<in> set (filter (\<lambda>c. c_name c = ''psi'') (m_constrs (l1_model z pbar kappa w pe)))"
    by simp
  then show ?thesis
    unfolding psi_of_l1_model by (auto simp: psi_constr_def)
qed

lemma theta_less_equal:
  assumes "c \<in> set (m_constrs (linf_model z pbar kappa))" "c_name c = ''theta''"
  shows "c_sense c = LESS_EQUAL"
proof -
  from assms have "c \<in> set (filter (\<lambda>c. c_name c = ''theta'') (m_constrs (linf_model z pbar kappa)))"
    by simp
  then show ?thesis
    unfolding theta_of_linf_model by (auto simp: theta_constr_def)
qed

lemma l1_weighted_budgets:
  assumes "budgets = map duals
      (filter (\<lambda>j. c_name (m_constrs (l1_model z pbar kappa w pe) ! j) = ''psi'')
         [0..<length (m_constrs (l1_model z pbar kappa w pe))])"
  shows "reduced_cost (l1_model z pbar kappa w pe) duals Lambda =
     - kappa + (\<Sum>k<length budgets. l1_weights pbar w ! k * budgets ! k)"
proof -
  have b: "budgets = map (\<lambda>i. duals (length (l1_policy_constrs pe (length pbar)) + 2 * i + 1))
      [0..<sum_list (map length pbar)]"
    unfolding assms l1_psi_indices by (simp add: comp_def)
  have "(\<Sum>k<length budgets. l1_weights pbar w ! k * budgets ! k) =
      (\<Sum>i<sum_list (map length pbar).
        l1_weights pbar w ! i * duals (length (l1_policy_constrs pe (length pbar)) + 2 * i + 1))"
    unfolding b by (rule sum.cong) simp_all
  then show ?thesis by (simp only: l1_reduced_cost_Lambda)
qed

lemma Lambda_reduced_cost:
  assumes "is_dual_optimal m sol" "m_modelsense m = MAXIMIZE" "m_vars m = srect_vars pbar"
  shows "reduced_cost m (sol_Pi sol) Lambda \<le> 0"
    and "0 < sol_X sol Lambda \<Longrightarrow> reduced_cost m (sol_Pi sol) Lambda = 0"
proof -
  have "\<lparr>vd_var = Lambda, vd_lb = Fin 0, vd_ub = PlusInf\<rparr> \<in> set (m_vars m)"
    by (simp add: assms(3) srect_vars_def)
  with assms(1) have "reduced_cost_ok (m_modelsense m) (Fin 0) PlusInf (sol_X sol Lambda)
      (reduced_cost m (sol_Pi sol) Lambda)"
    unfolding is_dual_optimal_def list_all_iff by fastforce
  then have r: "\<not> 0 < reduced_cost m (sol_Pi sol) Lambda"
    "reduced_cost m (sol_Pi sol) Lambda < 0 \<longrightarrow> sol_X sol Lambda = 0"
    using assms(2) by auto
  from r(1) show "reduced_cost m (sol_Pi sol) Lambda \<le> 0" by simp
  from r show "0 < sol_X sol Lambda \<Longrightarrow> reduced_cost m (sol_Pi sol) Lambda = 0" by force
qed

text \<open>
  What holds of the budgets when the solver meets its contract on the duals.  Every budget
  returned by the L1 operation, which returns only at the status \<open>OPTIMAL\<close>, is
  non-negative; the sum of the budgets, each multiplied by the weight of its pair of an
  action and an outcome, is at most \<open>kappa\<close>, and it is \<open>kappa\<close> when \<open>lambda\<close> is positive
  in the solution.  The budgets returned by the L-infinity operation are non-negative
  when the status is \<open>OPTIMAL\<close>; the operation does not test it.
\<close>

theorem srect_budgets_dual:
  "(srect_l1_solve_gurobi optimize z pbar kappa w policy_eval = Inr (obj, policy, budgets) \<and>
    (\<forall>m. srect_l1_build z pbar kappa w policy_eval = Inr m \<longrightarrow> dual_solves optimize m)
    \<longrightarrow>
      list_all (\<lambda>b. 0 \<le> b) budgets \<and>
      (\<Sum>k<length budgets. l1_weights pbar w ! k * budgets ! k) \<le> kappa \<and>
      (\<forall>m sol. srect_l1_build z pbar kappa w policy_eval = Inr m \<and>
         r_solution (optimize m) = Some sol \<and> 0 < sol_X sol Lambda \<longrightarrow>
         (\<Sum>k<length budgets. l1_weights pbar w ! k * budgets ! k) = kappa)) \<and>
   (srect_linf_solve_gurobi optimize z pbar kappa w = Inr (obj', policy', budgets') \<and>
    (\<forall>m. srect_linf_build z pbar kappa w = Inr m \<longrightarrow>
       dual_solves optimize m \<and> r_status (optimize m) = OPTIMAL)
    \<longrightarrow> list_all (\<lambda>b. 0 \<le> b) budgets')"
proof (intro conjI impI)
  let ?m = "l1_model z pbar kappa w policy_eval"
  assume a: "srect_l1_solve_gurobi optimize z pbar kappa w policy_eval = Inr (obj, policy, budgets) \<and>
    (\<forall>m. srect_l1_build z pbar kappa w policy_eval = Inr m \<longrightarrow> dual_solves optimize m)"
  then have r: "srect_l1_solve_gurobi optimize z pbar kappa w policy_eval = Inr (obj, policy, budgets)"
    by simp
  from srect_l1_solve_Inr[OF r] obtain sol where
    b: "srect_l1_build z pbar kappa w policy_eval = Inr ?m"
    and st: "r_status (optimize ?m) = OPTIMAL"
    and s: "r_solution (optimize ?m) = Some sol"
    and bud: "budgets = map (sol_Pi sol)
          (filter (\<lambda>j. c_name (m_constrs ?m ! j) = ''psi'') [0..<length (m_constrs ?m)])"
    by blast
  from a b have "dual_solves optimize ?m" by blast
  with st s have d: "is_dual_optimal ?m sol" by (simp add: dual_solves_def)
  have ms: "m_modelsense ?m = MAXIMIZE" and vs: "m_vars ?m = srect_vars pbar"
    by (simp_all add: l1_model_def)
  show "list_all (\<lambda>b. 0 \<le> b) budgets"
    unfolding bud by (rule named_duals_nonneg[OF d ms]) (rule psi_less_equal)
  have rc: "reduced_cost ?m (sol_Pi sol) Lambda =
     - kappa + (\<Sum>k<length budgets. l1_weights pbar w ! k * budgets ! k)"
    using bud by (rule l1_weighted_budgets)
  from Lambda_reduced_cost(1)[OF d ms vs] rc
  show "(\<Sum>k<length budgets. l1_weights pbar w ! k * budgets ! k) \<le> kappa" by simp
  show "\<forall>m sol. srect_l1_build z pbar kappa w policy_eval = Inr m \<and>
         r_solution (optimize m) = Some sol \<and> 0 < sol_X sol Lambda \<longrightarrow>
         (\<Sum>k<length budgets. l1_weights pbar w ! k * budgets ! k) = kappa"
  proof (intro allI impI)
    fix m' sol'
    assume h: "srect_l1_build z pbar kappa w policy_eval = Inr m' \<and>
         r_solution (optimize m') = Some sol' \<and> 0 < sol_X sol' Lambda"
    with b s have "m' = ?m" "sol' = sol" by simp_all
    with h have "0 < sol_X sol Lambda" by simp
    from Lambda_reduced_cost(2)[OF d ms vs this] rc
    show "(\<Sum>k<length budgets. l1_weights pbar w ! k * budgets ! k) = kappa" by simp
  qed
next
  let ?m = "linf_model z pbar kappa"
  assume a: "srect_linf_solve_gurobi optimize z pbar kappa w = Inr (obj', policy', budgets') \<and>
    (\<forall>m. srect_linf_build z pbar kappa w = Inr m \<longrightarrow>
       dual_solves optimize m \<and> r_status (optimize m) = OPTIMAL)"
  then have r: "srect_linf_solve_gurobi optimize z pbar kappa w = Inr (obj', policy', budgets')"
    by simp
  from srect_linf_solve_Inr[OF r] obtain sol where
    b: "srect_linf_build z pbar kappa w = Inr ?m"
    and s: "r_solution (optimize ?m) = Some sol"
    and bud: "budgets' = map (sol_Pi sol)
          (filter (\<lambda>j. c_name (m_constrs ?m ! j) = ''theta'') [0..<length (m_constrs ?m)])"
    by blast
  from a b have "dual_solves optimize ?m \<and> r_status (optimize ?m) = OPTIMAL" by blast
  with s have d: "is_dual_optimal ?m sol" by (simp add: dual_solves_def)
  have ms: "m_modelsense ?m = MAXIMIZE" by (simp add: linf_model_def)
  show "list_all (\<lambda>b. 0 \<le> b) budgets'"
    unfolding bud by (rule named_duals_nonneg[OF d ms]) (rule theta_less_equal)
qed

lemma l1_example_constrs:
  "m_constrs (l1_model [[1, 0]] [[1/2, 1/2]] kappa [] []) =
     [sum_constr 1 ''pi'', P_constr [[1, 0]] 0 0 0, psi_constr [] 0 0 0,
      P_constr [[1, 0]] 0 1 1, psi_constr [] 0 1 1]"
  by (simp add: l1_model_def l1_policy_constrs_def l1_row_constrs_def yindex_def numeral_2_eq_2)

lemma linf_example_constrs:
  "m_constrs (linf_model [[1, 0]] [[1/2, 1/2]] kappa) =
     [P_constr [[1, 0]] 0 0 0, P_constr [[1, 0]] 0 1 1, theta_constr [[1/2, 1/2]] 0,
      sum_constr 1 ''policy'']"
  by (simp add: linf_model_def linf_row_constrs_def yindex_def numeral_2_eq_2)

lemma example_vars:
  "srect_vars [[1/2, 1/2]] =
     [\<lparr>vd_var = X 0, vd_lb = MinusInf, vd_ub = PlusInf\<rparr>,
      \<lparr>vd_var = YP 0, vd_lb = Fin 0, vd_ub = PlusInf\<rparr>,
      \<lparr>vd_var = YP 1, vd_lb = Fin 0, vd_ub = PlusInf\<rparr>,
      \<lparr>vd_var = YN 0, vd_lb = Fin 0, vd_ub = PlusInf\<rparr>,
      \<lparr>vd_var = YN 1, vd_lb = Fin 0, vd_ub = PlusInf\<rparr>,
      \<lparr>vd_var = Lambda, vd_lb = Fin 0, vd_ub = PlusInf\<rparr>,
      \<lparr>vd_var = D 0, vd_lb = Fin 0, vd_ub = PlusInf\<rparr>]"
  by (simp add: srect_vars_def numeral_2_eq_2)

lemma example_objective_coeffs:
  "le_coeff (le_add (le_sum (map (l1_row_obj [[1/2, 1/2]]) [0..<length [[1/2, 1/2 :: real]]]))
       (le_scale kappa (le_neg (le_var Lambda)))) x =
   (if x = X 0 then 1 else if x = YP 0 \<or> x = YP 1 then - 1/2
    else if x = YN 0 \<or> x = YN 1 then 1/2 else if x = Lambda then - kappa else 0)"
  by (cases x) (auto simp: le_coeff_simps l1_row_obj_def obj_pair_def yindex_def numeral_2_eq_2)

lemma all_less_5: "(\<forall>j<5::nat. P j) \<longleftrightarrow> P 0 \<and> P 1 \<and> P 2 \<and> P 3 \<and> P 4"
  by (auto simp: less_Suc_eq eval_nat_numeral)

lemma all_less_4: "(\<forall>j<4::nat. P j) \<longleftrightarrow> P 0 \<and> P 1 \<and> P 2 \<and> P 3"
  by (auto simp: less_Suc_eq eval_nat_numeral)

lemma sum_less_5: "(\<Sum>j<5::nat. f j) = f 0 + f 1 + f 2 + f 3 + (f 4 :: real)"
  by (simp add: lessThan_Suc eval_nat_numeral)

lemma sum_less_4: "(\<Sum>j<4::nat. f j) = f 0 + f 1 + f 2 + (f 3 :: real)"
  by (simp add: lessThan_Suc eval_nat_numeral)

lemma nth_5:
  "[c0, c1, c2, c3, c4] ! 0 = c0" "[c0, c1, c2, c3, c4] ! 1 = c1" "[c0, c1, c2, c3, c4] ! 2 = c2"
  "[c0, c1, c2, c3, c4] ! 3 = c3" "[c0, c1, c2, c3, c4] ! 4 = c4"
  by (simp_all add: eval_nat_numeral)

lemma is_dual_optimal_l1_example:
  "is_dual_optimal (l1_model [[1, 0]] [[1/2, 1/2]] (1/2) [] [])
     \<lparr>sol_ObjVal = 1/4,
      sol_X = (\<lambda>x. 0)(X 0 := 1/2, YN 0 := 1/2, YP 1 := 1/2, Lambda := 1/2, D 0 := 1),
      sol_Pi = (\<lambda>j. 1/4)(3 := 3/4)\<rparr>"
proof -
  define m where "m = l1_model [[1, 0]] [[1/2, 1/2]] (1/2) [] []"
  define v0 :: "grb_var \<Rightarrow> real"
    where "v0 = (\<lambda>x. 0)(X 0 := 1/2, YN 0 := 1/2, YP 1 := 1/2, Lambda := 1/2, D 0 := 1)"
  define duals :: "nat \<Rightarrow> real" where "duals = (\<lambda>j. 1/4)(3 := 3/4)"
  define c0 where "c0 = sum_constr 1 ''pi''"
  define c1 where "c1 = P_constr [[1, 0]] 0 0 0"
  define c2 where "c2 = psi_constr [] 0 0 0"
  define c3 where "c3 = P_constr [[1, 0]] 0 1 1"
  define c4 where "c4 = psi_constr [] 0 1 1"
  have ms: "m_modelsense m = MAXIMIZE" and vs: "m_vars m = srect_vars [[1/2, 1/2]]"
    by (simp_all add: m_def l1_model_def)
  have cs: "m_constrs m = [c0, c1, c2, c3, c4]"
    unfolding m_def c0_def c1_def c2_def c3_def c4_def by (rule l1_example_constrs)
  have len: "length (m_constrs m) = 5" by (simp add: cs)
  have oc: "le_coeff (m_objective m) x =
      (if x = X 0 then 1 else if x = YP 0 \<or> x = YP 1 then - 1/2
       else if x = YN 0 \<or> x = YN 1 then 1/2 else if x = Lambda then - (1/2) else 0)" for x
    unfolding m_def l1_model_def grb_model.simps by (rule example_objective_coeffs)
  have rows: "row_coeff c0 x = (if x = D 0 then 1 else 0)"
    "row_coeff c1 x =
       (if x = X 0 then 1 else if x = YP 0 then - 1 else if x = YN 0 then 1
        else if x = D 0 then - 1 else 0)"
    "row_coeff c3 x =
       (if x = X 0 then 1 else if x = YP 1 then - 1 else if x = YN 1 then 1 else 0)"
    "row_coeff c2 x =
       (if x = Lambda then - 1 else if x = YP 0 then 1 else if x = YN 0 then 1 else 0)"
    "row_coeff c4 x =
       (if x = Lambda then - 1 else if x = YP 1 then 1 else if x = YN 1 then 1 else 0)" for x
    unfolding c0_def c1_def c2_def c3_def c4_def
    by (cases x; simp add: row_coeff_def sum_constr_def P_constr_def psi_constr_def le_coeff_simps
        le_addTerms_def)+
  have du: "duals 0 = 1/4" "duals 1 = 1/4" "duals 2 = 1/4" "duals 3 = 3/4" "duals 4 = 1/4"
    by (simp_all add: duals_def)
  have rc: "reduced_cost m duals x =
      le_coeff (m_objective m) x -
      (duals 0 * row_coeff c0 x + duals 1 * row_coeff c1 x + duals 2 * row_coeff c2 x +
       duals 3 * row_coeff c3 x + duals 4 * row_coeff c4 x)" for x
    unfolding reduced_cost_def len unfolding sum_less_5 unfolding cs nth_5 by simp
  have rcs: "reduced_cost m duals (X 0) = 0" "reduced_cost m duals (YP 0) = - 1/2"
    "reduced_cost m duals (YP 1) = 0" "reduced_cost m duals (YN 0) = 0"
    "reduced_cost m duals (YN 1) = - 1/2" "reduced_cost m duals Lambda = 0"
    "reduced_cost m duals (D 0) = 0"
    unfolding rc oc rows du by simp_all
  have vals: "v0 (X 0) = 1/2" "v0 (YP 0) = 0" "v0 (YP 1) = 1/2" "v0 (YN 0) = 1/2" "v0 (YN 1) = 0"
    "v0 Lambda = 1/2" "v0 (D 0) = 1"
    by (simp_all add: v0_def)
  have senses: "c_sense c0 = EQUAL" "c_sense c1 = LESS_EQUAL" "c_sense c2 = LESS_EQUAL"
    "c_sense c3 = LESS_EQUAL" "c_sense c4 = LESS_EQUAL"
    by (simp_all add: c0_def c1_def c2_def c3_def c4_def sum_constr_def P_constr_def psi_constr_def)
  have tight: "le_eval v0 (c_lhs c0) = le_eval v0 (c_rhs c0)"
    "le_eval v0 (c_lhs c1) = le_eval v0 (c_rhs c1)" "le_eval v0 (c_lhs c2) = le_eval v0 (c_rhs c2)"
    "le_eval v0 (c_lhs c3) = le_eval v0 (c_rhs c3)" "le_eval v0 (c_lhs c4) = le_eval v0 (c_rhs c4)"
    unfolding c0_def c1_def c2_def c3_def c4_def
    by (simp_all add: sum_constr_def P_constr_def psi_constr_def le_eval_simps v0_def
        le_addTerms_def)
  have "is_dual_optimal m \<lparr>sol_ObjVal = 1/4, sol_X = v0, sol_Pi = duals\<rparr>"
    unfolding is_dual_optimal_def len unfolding all_less_5 unfolding cs nth_5 ms vs example_vars
    by (simp add: senses tight du rcs vals du[unfolded One_nat_def] rcs[unfolded One_nat_def]
        vals[unfolded One_nat_def])
  then show ?thesis unfolding m_def v0_def duals_def .
qed

lemma nth_4:
  "[c0, c1, c2, c3] ! 0 = c0" "[c0, c1, c2, c3] ! 1 = c1" "[c0, c1, c2, c3] ! 2 = c2"
  "[c0, c1, c2, c3] ! 3 = c3"
  by (simp_all add: eval_nat_numeral)

lemma is_dual_optimal_linf_example:
  "is_dual_optimal (linf_model [[1, 0]] [[1/2, 1/2]] (1/4))
     \<lparr>sol_ObjVal = 1/4,
      sol_X = (\<lambda>x. 0)(X 0 := 1/2, YN 0 := 1/2, YP 1 := 1/2, Lambda := 1, D 0 := 1),
      sol_Pi = (\<lambda>j. 1/4)(1 := 3/4)\<rparr>"
proof -
  define m where "m = linf_model [[1, 0]] [[1/2, 1/2]] (1/4)"
  define v0 :: "grb_var \<Rightarrow> real"
    where "v0 = (\<lambda>x. 0)(X 0 := 1/2, YN 0 := 1/2, YP 1 := 1/2, Lambda := 1, D 0 := 1)"
  define duals :: "nat \<Rightarrow> real" where "duals = (\<lambda>j. 1/4)(1 := 3/4)"
  define c0 where "c0 = P_constr [[1, 0]] 0 0 0"
  define c1 where "c1 = P_constr [[1, 0]] 0 1 1"
  define c2 where "c2 = theta_constr [[1/2, 1/2]] 0"
  define c3 where "c3 = sum_constr 1 ''policy''"
  have ms: "m_modelsense m = MAXIMIZE" and vs: "m_vars m = srect_vars [[1/2, 1/2]]"
    by (simp_all add: m_def linf_model_def)
  have cs: "m_constrs m = [c0, c1, c2, c3]"
    unfolding m_def c0_def c1_def c2_def c3_def by (rule linf_example_constrs)
  have len: "length (m_constrs m) = 4" by (simp add: cs)
  have oc: "le_coeff (m_objective m) x =
      (if x = X 0 then 1 else if x = YP 0 \<or> x = YP 1 then - 1/2
       else if x = YN 0 \<or> x = YN 1 then 1/2 else if x = Lambda then - (1/4) else 0)" for x
    unfolding m_def linf_model_def grb_model.simps by (rule example_objective_coeffs)
  have rows: "row_coeff c3 x = (if x = D 0 then 1 else 0)"
    "row_coeff c0 x =
       (if x = X 0 then 1 else if x = YP 0 then - 1 else if x = YN 0 then 1
        else if x = D 0 then - 1 else 0)"
    "row_coeff c1 x =
       (if x = X 0 then 1 else if x = YP 1 then - 1 else if x = YN 1 then 1 else 0)"
    "row_coeff c2 x =
       (if x = Lambda then - 1
        else if x = YP 0 \<or> x = YN 0 \<or> x = YP 1 \<or> x = YN 1 then 1 else 0)" for x
    unfolding c0_def c1_def c2_def c3_def
    by (cases x; simp add: row_coeff_def sum_constr_def P_constr_def theta_constr_def
        le_coeff_simps le_addTerms_def y_pair_def yindex_def numeral_2_eq_2)+
  have du: "duals 0 = 1/4" "duals 1 = 3/4" "duals 2 = 1/4" "duals 3 = 1/4"
    by (simp_all add: duals_def)
  have rc: "reduced_cost m duals x =
      le_coeff (m_objective m) x -
      (duals 0 * row_coeff c0 x + duals 1 * row_coeff c1 x + duals 2 * row_coeff c2 x +
       duals 3 * row_coeff c3 x)" for x
    unfolding reduced_cost_def len unfolding sum_less_4 unfolding cs nth_4 by simp
  have rcs: "reduced_cost m duals (X 0) = 0" "reduced_cost m duals (YP 0) = - 1/2"
    "reduced_cost m duals (YP 1) = 0" "reduced_cost m duals (YN 0) = 0"
    "reduced_cost m duals (YN 1) = - 1/2" "reduced_cost m duals Lambda = 0"
    "reduced_cost m duals (D 0) = 0"
    unfolding rc oc rows du by simp_all
  have vals: "v0 (X 0) = 1/2" "v0 (YP 0) = 0" "v0 (YP 1) = 1/2" "v0 (YN 0) = 1/2" "v0 (YN 1) = 0"
    "v0 Lambda = 1" "v0 (D 0) = 1"
    by (simp_all add: v0_def)
  have senses: "c_sense c3 = EQUAL" "c_sense c0 = LESS_EQUAL" "c_sense c1 = LESS_EQUAL"
    "c_sense c2 = LESS_EQUAL"
    by (simp_all add: c0_def c1_def c2_def c3_def sum_constr_def P_constr_def theta_constr_def)
  have tight: "le_eval v0 (c_lhs c0) = le_eval v0 (c_rhs c0)"
    "le_eval v0 (c_lhs c1) = le_eval v0 (c_rhs c1)" "le_eval v0 (c_lhs c2) = le_eval v0 (c_rhs c2)"
    "le_eval v0 (c_lhs c3) = le_eval v0 (c_rhs c3)"
    unfolding c0_def c1_def c2_def c3_def
    by (simp_all add: sum_constr_def P_constr_def theta_constr_def le_eval_simps v0_def
        le_addTerms_def le_eval_y_pair yindex_def numeral_2_eq_2)
  have "is_dual_optimal m \<lparr>sol_ObjVal = 1/4, sol_X = v0, sol_Pi = duals\<rparr>"
    unfolding is_dual_optimal_def len unfolding all_less_4 unfolding cs nth_4 ms vs example_vars
    by (simp add: senses tight du rcs vals du[unfolded One_nat_def] rcs[unfolded One_nat_def]
        vals[unfolded One_nat_def])
  then show ?thesis unfolding m_def v0_def duals_def .
qed

text \<open>
  One action with the returns \<open>[1, 0]\<close> and the nominal probabilities \<open>[0.5, 0.5]\<close>, and a
  solver that exposes an optimal solution with optimal duals.  For the L1 operation with
  the budget \<open>0.5\<close>, \<open>lambda = 0.5\<close> is positive, the budgets are \<open>[0.25, 0.25]\<close> and
  their sum is \<open>0.5\<close>; for the L-infinity operation with the budget \<open>0.25\<close> the only
  budget is \<open>0.25\<close>.
\<close>

theorem srect_budgets_dual_witness:
  "(\<exists>optimize obj policy budgets.
      srect_l1_solve_gurobi optimize [[1, 0]] [[1/2, 1/2]] (1/2) [] [] = Inr (obj, policy, budgets) \<and>
      list_all (\<lambda>b. 0 \<le> b) budgets \<and>
      (\<Sum>k<length budgets. l1_weights [[1/2, 1/2]] [] ! k * budgets ! k) = 1/2) \<and>
   (\<exists>optimize obj policy budgets.
      srect_linf_solve_gurobi optimize [[1, 0]] [[1/2, 1/2]] (1/4) [] = Inr (obj, policy, budgets) \<and>
      list_all (\<lambda>b. 0 \<le> b) budgets)"
proof
  let ?z = "[[1, 0 :: real]]" and ?p = "[[1/2, 1/2 :: real]]"
  let ?sol = "\<lparr>sol_ObjVal = 1/4,
      sol_X = (\<lambda>x. 0)(X 0 := 1/2, YN 0 := 1/2, YP 1 := 1/2, Lambda := 1/2, D 0 := 1),
      sol_Pi = (\<lambda>j. 1/4)(3 := 3/4)\<rparr>"
  define optimize :: grb_optimize where
    "optimize = (\<lambda>m. \<lparr>r_status = OPTIMAL, r_solution = Some ?sol\<rparr>)"
  have cov: "rows_cover ?p ?z" by (simp add: rows_cover_simps)
  obtain policy budgets where
    r: "srect_l1_solve_gurobi optimize ?z ?p (1/2) [] [] = Inr (1/4, policy, budgets)"
    using srect_l1_solve_Inr_ex[of ?p ?z "[]" optimize "1/2" ?sol] cov
    by (auto simp: optimize_def)
  have b: "srect_l1_build ?z ?p (1/2) [] [] = Inr (l1_model ?z ?p (1/2) [] [])"
    using cov by (simp add: srect_l1_build_closed)
  have d: "\<forall>m. srect_l1_build ?z ?p (1/2) [] [] = Inr m \<longrightarrow> dual_solves optimize m"
    using is_dual_optimal_l1_example by (auto simp: b optimize_def dual_solves_def)
  have l: "\<exists>m sol. srect_l1_build ?z ?p (1/2) [] [] = Inr m \<and>
       r_solution (optimize m) = Some sol \<and> 0 < sol_X sol Lambda"
    by (simp add: b optimize_def)
  from srect_budgets_dual[of optimize ?z ?p "1/2" "[]" "[]" "1/4" policy budgets] r d l
  have "list_all (\<lambda>b. 0 \<le> b) budgets \<and>
      (\<Sum>k<length budgets. l1_weights ?p [] ! k * budgets ! k) = 1/2"
    by blast
  with r show "\<exists>optimize obj policy budgets.
      srect_l1_solve_gurobi optimize [[1, 0]] [[1/2, 1/2]] (1/2) [] [] = Inr (obj, policy, budgets) \<and>
      list_all (\<lambda>b. 0 \<le> b) budgets \<and>
      (\<Sum>k<length budgets. l1_weights [[1/2, 1/2]] [] ! k * budgets ! k) = 1/2"
    by blast
next
  let ?z = "[[1, 0 :: real]]" and ?p = "[[1/2, 1/2 :: real]]"
  let ?sol = "\<lparr>sol_ObjVal = 1/4,
      sol_X = (\<lambda>x. 0)(X 0 := 1/2, YN 0 := 1/2, YP 1 := 1/2, Lambda := 1, D 0 := 1),
      sol_Pi = (\<lambda>j. 1/4)(1 := 3/4)\<rparr>"
  define optimize :: grb_optimize where
    "optimize = (\<lambda>m. \<lparr>r_status = OPTIMAL, r_solution = Some ?sol\<rparr>)"
  have cov: "rows_cover ?p ?z" by (simp add: rows_cover_simps)
  obtain policy budgets where
    r: "srect_linf_solve_gurobi optimize ?z ?p (1/4) [] = Inr (1/4, policy, budgets)"
    using srect_linf_solve_Inr_ex[of ?p ?z "[]" optimize "1/4" ?sol] cov
    by (auto simp: optimize_def)
  have b: "srect_linf_build ?z ?p (1/4) [] = Inr (linf_model ?z ?p (1/4))"
    using cov by (simp add: srect_linf_build_closed)
  have d: "\<forall>m. srect_linf_build ?z ?p (1/4) [] = Inr m \<longrightarrow>
       dual_solves optimize m \<and> r_status (optimize m) = OPTIMAL"
    using is_dual_optimal_linf_example by (auto simp: b optimize_def dual_solves_def)
  from srect_budgets_dual[of optimize ?z ?p "1/4" "[]" _ _ _ _ "1/4" policy budgets] r d
  have "list_all (\<lambda>b. 0 \<le> b) budgets"
    by blast
  with r show "\<exists>optimize obj policy budgets.
      srect_linf_solve_gurobi optimize [[1, 0]] [[1/2, 1/2]] (1/4) [] = Inr (obj, policy, budgets) \<and>
      list_all (\<lambda>b. 0 \<le> b) budgets"
    by blast
qed

section \<open>The missing test of the status, and the claims that depend on it (claims C2, C7 and C9)\<close>

lemma le_coeff_linf_objective_Lambda:
  "le_coeff (m_objective (linf_model z pbar kappa)) Lambda = - kappa"
  by (simp only: linf_model_def grb_model.simps le_coeff_objective_Lambda)

lemma le_coeff_l1_objective_Lambda:
  "le_coeff (m_objective (l1_model z pbar kappa w pe)) Lambda = - kappa"
  by (simp only: l1_model_def grb_model.simps le_coeff_objective_Lambda)

lemma linf_vertex_feasible:
  "feasible (linf_model [[1, 0]] [[1/2, 1/2]] kappa) ((\<lambda>x. 0)(D 0 := 1))"
  by (simp add: feasible_linf_model yindex_def less_Suc_eq all_conj_distrib numeral_2_eq_2
      lessThan_Suc)

lemma linf_example_theta_indices:
  "filter (\<lambda>j. c_name (m_constrs (linf_model [[1, 0]] [[1/2, 1/2]] kappa) ! j) = ''theta'')
     [0..<length (m_constrs (linf_model [[1, 0]] [[1/2, 1/2]] kappa))] = [2]"
  unfolding linf_example_constrs
  by (simp add: upt_rec[of 0] upt_rec[of 1] upt_rec[of 2] upt_rec[of 3] upt_rec[of "Suc 0"]
      upt_rec[of "Suc (Suc 0)"] P_constr_def theta_constr_def sum_constr_def eval_nat_numeral)

lemma srect_linf_solve_example:
  assumes "r_solution (optimize (linf_model [[1, 0]] [[1/2, 1/2]] kappa)) = Some sol"
  shows "srect_linf_solve_gurobi optimize [[1, 0]] [[1/2, 1/2]] kappa [] =
     Inr (sol_ObjVal sol, [sol_X sol (D 0)], [sol_Pi sol 2])"
proof -
  let ?z = "[[1, 0 :: real]]" and ?p = "[[1/2, 1/2 :: real]]"
  let ?m = "linf_model ?z ?p kappa"
  have b: "srect_linf_build ?z ?p kappa [] = Inr ?m"
    by (rule srect_linf_build_closed) (simp_all add: rows_cover_simps)
  have t: "length (filter (\<lambda>c. c_name c = ''theta'') (m_constrs ?m)) = length ?p"
    by (rule length_theta)
  show ?thesis
    unfolding srect_linf_solve_gurobi_def b
    using srect_linf_extract_Inr[OF t, of "optimize ?m" "sol_ObjVal sol" "[sol_X sol (D 0)]"
        "[sol_Pi sol 2]"] assms
    by (simp add: linf_example_theta_indices)
qed

lemma srect_l1_solve_example_fails:
  assumes "r_status (optimize (l1_model [[1, 0]] [[1/2, 1/2]] kappa [] [])) \<noteq> OPTIMAL"
  shows "srect_l1_solve_gurobi optimize [[1, 0]] [[1/2, 1/2]] kappa [] [] =
     Inl (InvalidArgument ''Failed to solve the LP.'')"
proof -
  have c: "srect_l1_build [[1, 0]] [[1/2, 1/2]] kappa [] [] =
      Inr (l1_model [[1, 0]] [[1/2, 1/2]] kappa [] [])"
    by (rule srect_l1_build_closed) (simp_all add: rows_cover_simps)
  show ?thesis
    unfolding srect_l1_solve_gurobi_def c using assms by (simp add: srect_l1_extract_def)
qed

text \<open>
  A solver that meets its contract and still stops early on one model.  On a model whose
  objective has no term in \<open>lambda\<close> (the budget is \<open>0\<close>) it stops with the status
  \<open>SUBOPTIMAL\<close> at the feasible point \<open>d = 1\<close>, every other variable zero; on any other
  model it ends with the status \<open>OPTIMAL\<close> and exposes the optimum of the L-infinity model
  for the returns \<open>[1, 0]\<close>, the nominal probabilities \<open>[0.5, 0.5]\<close> and the budget \<open>0.25\<close>.
  It satisfies \<open>solves\<close> on the two L-infinity models for the budgets \<open>0\<close> and \<open>0.25\<close>:
  on the first the status is not \<open>OPTIMAL\<close>, on the second the solution is optimal.
\<close>

lemma stalling_solver_solves:
  fixes optimize :: grb_optimize
  defines "optimize \<equiv> (\<lambda>m. if le_coeff (m_objective m) Lambda = 0
       then \<lparr>r_status = SUBOPTIMAL,
             r_solution = Some \<lparr>sol_ObjVal = 0, sol_X = (\<lambda>x. 0)(D 0 := 1),
               sol_Pi = (\<lambda>j. 0)(1 := 1, 2 := - 1/2)\<rparr>\<rparr>
       else \<lparr>r_status = OPTIMAL,
             r_solution = Some \<lparr>sol_ObjVal = 1/4,
               sol_X = (\<lambda>x. 0)(X 0 := 1/2, YN 0 := 1/2, YP 1 := 1/2, Lambda := 1, D 0 := 1),
               sol_Pi = (\<lambda>j. 1/4)(1 := 3/4)\<rparr>\<rparr>)"
  shows "solves optimize (linf_model [[1, 0]] [[1/2, 1/2]] 0)"
    and "solves optimize (linf_model [[1, 0]] [[1/2, 1/2]] (1/4))"
    and "dual_solves optimize (linf_model [[1, 0]] [[1/2, 1/2]] 0)"
    and "dual_solves optimize (linf_model [[1, 0]] [[1/2, 1/2]] (1/4))"
    and "feasible (linf_model [[1, 0]] [[1/2, 1/2]] 0)
           (sol_X (the (r_solution (optimize (linf_model [[1, 0]] [[1/2, 1/2]] 0)))))"
proof -
  show "solves optimize (linf_model [[1, 0]] [[1/2, 1/2]] 0)"
    "dual_solves optimize (linf_model [[1, 0]] [[1/2, 1/2]] 0)"
    by (simp_all add: solves_def dual_solves_def optimize_def le_coeff_linf_objective_Lambda)
  show "solves optimize (linf_model [[1, 0]] [[1/2, 1/2]] (1/4))"
    using is_optimal_linf_example[of "1/4"]
    by (simp add: solves_def optimize_def le_coeff_linf_objective_Lambda is_optimal_def)
  show "dual_solves optimize (linf_model [[1, 0]] [[1/2, 1/2]] (1/4))"
    using is_dual_optimal_linf_example
    by (simp add: dual_solves_def optimize_def le_coeff_linf_objective_Lambda)
  show "feasible (linf_model [[1, 0]] [[1/2, 1/2]] 0)
           (sol_X (the (r_solution (optimize (linf_model [[1, 0]] [[1/2, 1/2]] 0)))))"
    using linf_vertex_feasible[of 0]
    by (simp add: optimize_def le_coeff_linf_objective_Lambda)
qed

text \<open>
  Claim C7, at the input where the code departs from it.  One action with the returns
  \<open>[1, 0]\<close>, the nominal probabilities \<open>[0.5, 0.5]\<close>, and the solver above, which meets
  its contract.  For the budget \<open>0\<close> the L-infinity operation returns the objective \<open>0\<close>
  of the point at which the solver stopped (the optimum is \<open>0.5\<close>); for the larger
  budget \<open>0.25\<close> it returns the optimum \<open>0.25\<close>.  The returned objective is larger for the
  larger budget.  The L1 operation fails for the budget \<open>0\<close> on the same solver, since
  it tests the status.
\<close>

theorem srect_linf_objective_increases:
  "srect_linf_solve_gurobi
     (\<lambda>m. if le_coeff (m_objective m) Lambda = 0
       then \<lparr>r_status = SUBOPTIMAL,
             r_solution = Some \<lparr>sol_ObjVal = 0, sol_X = (\<lambda>x. 0)(D 0 := 1),
               sol_Pi = (\<lambda>j. 0)(1 := 1, 2 := - 1/2)\<rparr>\<rparr>
       else \<lparr>r_status = OPTIMAL,
             r_solution = Some \<lparr>sol_ObjVal = 1/4,
               sol_X = (\<lambda>x. 0)(X 0 := 1/2, YN 0 := 1/2, YP 1 := 1/2, Lambda := 1, D 0 := 1),
               sol_Pi = (\<lambda>j. 1/4)(1 := 3/4)\<rparr>\<rparr>)
     [[1, 0]] [[1/2, 1/2]] 0 [] = Inr (0, [1], [- 1/2]) \<and>
   srect_linf_solve_gurobi
     (\<lambda>m. if le_coeff (m_objective m) Lambda = 0
       then \<lparr>r_status = SUBOPTIMAL,
             r_solution = Some \<lparr>sol_ObjVal = 0, sol_X = (\<lambda>x. 0)(D 0 := 1),
               sol_Pi = (\<lambda>j. 0)(1 := 1, 2 := - 1/2)\<rparr>\<rparr>
       else \<lparr>r_status = OPTIMAL,
             r_solution = Some \<lparr>sol_ObjVal = 1/4,
               sol_X = (\<lambda>x. 0)(X 0 := 1/2, YN 0 := 1/2, YP 1 := 1/2, Lambda := 1, D 0 := 1),
               sol_Pi = (\<lambda>j. 1/4)(1 := 3/4)\<rparr>\<rparr>)
     [[1, 0]] [[1/2, 1/2]] (1/4) [] = Inr (1/4, [1], [1/4]) \<and>
   srect_l1_solve_gurobi
     (\<lambda>m. if le_coeff (m_objective m) Lambda = 0
       then \<lparr>r_status = SUBOPTIMAL,
             r_solution = Some \<lparr>sol_ObjVal = 0, sol_X = (\<lambda>x. 0)(D 0 := 1),
               sol_Pi = (\<lambda>j. 0)(1 := 1, 2 := - 1/2)\<rparr>\<rparr>
       else \<lparr>r_status = OPTIMAL,
             r_solution = Some \<lparr>sol_ObjVal = 1/4,
               sol_X = (\<lambda>x. 0)(X 0 := 1/2, YN 0 := 1/2, YP 1 := 1/2, Lambda := 1, D 0 := 1),
               sol_Pi = (\<lambda>j. 1/4)(1 := 3/4)\<rparr>\<rparr>)
     [[1, 0]] [[1/2, 1/2]] 0 [] [] = Inl (InvalidArgument ''Failed to solve the LP.'')"
proof -
  define optimize :: grb_optimize where "optimize = (\<lambda>m. if le_coeff (m_objective m) Lambda = 0
       then \<lparr>r_status = SUBOPTIMAL,
             r_solution = Some \<lparr>sol_ObjVal = 0, sol_X = (\<lambda>x. 0)(D 0 := 1),
               sol_Pi = (\<lambda>j. 0)(1 := 1, 2 := - 1/2)\<rparr>\<rparr>
       else \<lparr>r_status = OPTIMAL,
             r_solution = Some \<lparr>sol_ObjVal = 1/4,
               sol_X = (\<lambda>x. 0)(X 0 := 1/2, YN 0 := 1/2, YP 1 := 1/2, Lambda := 1, D 0 := 1),
               sol_Pi = (\<lambda>j. 1/4)(1 := 3/4)\<rparr>\<rparr>)"
  have 1: "srect_linf_solve_gurobi optimize [[1, 0]] [[1/2, 1/2]] 0 [] = Inr (0, [1], [- 1/2])"
    using srect_linf_solve_example[of optimize 0
        "\<lparr>sol_ObjVal = 0, sol_X = (\<lambda>x. 0)(D 0 := 1), sol_Pi = (\<lambda>j. 0)(1 := 1, 2 := - 1/2)\<rparr>"]
    by (simp add: optimize_def le_coeff_linf_objective_Lambda)
  have 2: "srect_linf_solve_gurobi optimize [[1, 0]] [[1/2, 1/2]] (1/4) [] = Inr (1/4, [1], [1/4])"
    using srect_linf_solve_example[of optimize "1/4"
        "\<lparr>sol_ObjVal = 1/4,
          sol_X = (\<lambda>x. 0)(X 0 := 1/2, YN 0 := 1/2, YP 1 := 1/2, Lambda := 1, D 0 := 1),
          sol_Pi = (\<lambda>j. 1/4)(1 := 3/4)\<rparr>"]
    by (simp add: optimize_def le_coeff_linf_objective_Lambda)
  have 3: "srect_l1_solve_gurobi optimize [[1, 0]] [[1/2, 1/2]] 0 [] [] =
      Inl (InvalidArgument ''Failed to solve the LP.'')"
    by (rule srect_l1_solve_example_fails)
      (simp add: optimize_def le_coeff_l1_objective_Lambda)
  from 1 2 3 show ?thesis unfolding optimize_def by (intro conjI)
qed

text \<open>
  The point \<open>d = 1\<close>, every other variable zero, is a vertex of the feasible region of
  the L-infinity model for the returns \<open>[1, 0]\<close> and the nominal probabilities
  \<open>[0.5, 0.5]\<close>, and the values \<open>[0, 1, -0.5, 0]\<close> are the multipliers of a basis at that
  vertex (\<open>x[0]\<close>, \<open>d[0]\<close>, \<open>yn[1]\<close> and the slack of the first constraint): the first
  constraint is not tight and its multiplier is zero, and the reduced costs of the three
  variables of the basis vanish.  The basis is not optimal: the multiplier of the
  constraint named \<open>theta\<close> is negative.  A simplex method that stops at this basis
  exposes these values.
\<close>

lemma linf_vertex_multipliers:
  fixes kappa :: real
  defines "m \<equiv> linf_model [[1, 0]] [[1/2, 1/2]] kappa"
    and "v \<equiv> (\<lambda>x. 0 :: real)(D 0 := 1)"
    and "duals \<equiv> (\<lambda>j. 0 :: real)(1 := 1, 2 := - 1/2)"
  shows "feasible m v"
    and "le_eval v (m_objective m) = 0"
    and "duals 0 = 0" and "le_eval v (c_lhs (m_constrs m ! 0)) < le_eval v (c_rhs (m_constrs m ! 0))"
    and "reduced_cost m duals (X 0) = 0" and "reduced_cost m duals (D 0) = 0"
    and "reduced_cost m duals (YN 1) = 0"
    and "c_name (m_constrs m ! 2) = ''theta''" and "duals 2 < 0"
proof -
  define c0 where "c0 = P_constr [[1, 0]] 0 0 0"
  define c1 where "c1 = P_constr [[1, 0]] 0 1 1"
  define c2 where "c2 = theta_constr [[1/2, 1/2]] 0"
  define c3 where "c3 = sum_constr 1 ''policy''"
  have cs: "m_constrs m = [c0, c1, c2, c3]"
    unfolding m_def c0_def c1_def c2_def c3_def by (rule linf_example_constrs)
  have len: "length (m_constrs m) = 4" by (simp add: cs)
  have oc: "le_coeff (m_objective m) x =
      (if x = X 0 then 1 else if x = YP 0 \<or> x = YP 1 then - 1/2
       else if x = YN 0 \<or> x = YN 1 then 1/2 else if x = Lambda then - kappa else 0)" for x
    unfolding m_def linf_model_def grb_model.simps by (rule example_objective_coeffs)
  have rows: "row_coeff c3 x = (if x = D 0 then 1 else 0)"
    "row_coeff c0 x =
       (if x = X 0 then 1 else if x = YP 0 then - 1 else if x = YN 0 then 1
        else if x = D 0 then - 1 else 0)"
    "row_coeff c1 x =
       (if x = X 0 then 1 else if x = YP 1 then - 1 else if x = YN 1 then 1 else 0)"
    "row_coeff c2 x =
       (if x = Lambda then - 1
        else if x = YP 0 \<or> x = YN 0 \<or> x = YP 1 \<or> x = YN 1 then 1 else 0)" for x
    unfolding c0_def c1_def c2_def c3_def
    by (cases x; simp add: row_coeff_def sum_constr_def P_constr_def theta_constr_def
        le_coeff_simps le_addTerms_def y_pair_def yindex_def numeral_2_eq_2)+
  have du: "duals 0 = 0" "duals 1 = 1" "duals 2 = - 1/2" "duals 3 = 0"
    by (simp_all add: duals_def)
  have rc: "reduced_cost m duals x =
      le_coeff (m_objective m) x -
      (duals 0 * row_coeff c0 x + duals 1 * row_coeff c1 x + duals 2 * row_coeff c2 x +
       duals 3 * row_coeff c3 x)" for x
    unfolding reduced_cost_def len unfolding sum_less_4 unfolding cs nth_4 by simp
  show "feasible m v" unfolding m_def v_def by (rule linf_vertex_feasible)
  show "le_eval v (m_objective m) = 0"
    unfolding m_def v_def
    by (simp add: le_eval_linf_objective yindex_def lessThan_Suc numeral_2_eq_2)
  show "duals 0 = 0" by (rule du)
  show "le_eval v (c_lhs (m_constrs m ! 0)) < le_eval v (c_rhs (m_constrs m ! 0))"
    unfolding cs nth_4 c0_def v_def by (simp add: P_constr_def le_eval_simps)
  show "reduced_cost m duals (X 0) = 0" "reduced_cost m duals (D 0) = 0"
    "reduced_cost m duals (YN 1) = 0"
    unfolding rc oc rows du by simp_all
  show "c_name (m_constrs m ! 2) = ''theta''"
    unfolding cs nth_4 c2_def by (simp add: theta_constr_def)
  show "duals 2 < 0" unfolding du by simp
qed

text \<open>
  Claim C9, at the input where the code departs from it.  One action with the returns
  \<open>[1, 0]\<close>, the nominal probabilities \<open>[0.5, 0.5]\<close> and the budget \<open>0.25\<close>.  The solver
  stops with the status \<open>SUBOPTIMAL\<close> at the vertex above and exposes the multipliers of
  its basis.  The L-infinity operation, which never reads the status, succeeds and
  returns the budget \<open>-0.5\<close>; the L1 operation fails on the same outcome of the solver.
\<close>

theorem srect_linf_negative_budget:
  "srect_linf_solve_gurobi
     (\<lambda>m. \<lparr>r_status = SUBOPTIMAL,
            r_solution = Some \<lparr>sol_ObjVal = 0, sol_X = (\<lambda>x. 0)(D 0 := 1),
              sol_Pi = (\<lambda>j. 0)(1 := 1, 2 := - 1/2)\<rparr>\<rparr>)
     [[1, 0]] [[1/2, 1/2]] (1/4) [] = Inr (0, [1], [- 1/2]) \<and>
   srect_l1_solve_gurobi
     (\<lambda>m. \<lparr>r_status = SUBOPTIMAL,
            r_solution = Some \<lparr>sol_ObjVal = 0, sol_X = (\<lambda>x. 0)(D 0 := 1),
              sol_Pi = (\<lambda>j. 0)(1 := 1, 2 := - 1/2)\<rparr>\<rparr>)
     [[1, 0]] [[1/2, 1/2]] (1/4) [] [] = Inl (InvalidArgument ''Failed to solve the LP.'')"
proof -
  let ?sol = "\<lparr>sol_ObjVal = 0, sol_X = (\<lambda>x. 0 :: real)(D 0 := 1),
      sol_Pi = (\<lambda>j. 0 :: real)(1 := 1, 2 := - 1/2)\<rparr>"
  let ?opt = "\<lambda>m :: grb_model. \<lparr>r_status = SUBOPTIMAL, r_solution = Some ?sol\<rparr>"
  have 1: "srect_linf_solve_gurobi ?opt [[1, 0]] [[1/2, 1/2]] (1/4) [] = Inr (0, [1], [- 1/2])"
    using srect_linf_solve_example[of ?opt "1/4" ?sol] by simp
  have 2: "srect_l1_solve_gurobi ?opt [[1, 0]] [[1/2, 1/2]] (1/4) [] [] =
      Inl (InvalidArgument ''Failed to solve the LP.'')"
    by (rule srect_l1_solve_example_fails) simp
  from 1 2 show ?thesis by (intro conjI)
qed

text \<open>
  Why the status is a hypothesis for the L-infinity operation in claim C2: with the
  budget \<open>0\<close> and a solver that stops with the status \<open>SUBOPTIMAL\<close> at the point \<open>d = 1\<close>,
  the operation returns the objective \<open>0\<close>, while the expected nominal return of the
  returned policy is \<open>0.5\<close>.
\<close>

lemma srect_linf_kappa_zero_suboptimal:
  "srect_linf_solve_gurobi
     (\<lambda>m. \<lparr>r_status = SUBOPTIMAL,
            r_solution = Some \<lparr>sol_ObjVal = 0, sol_X = (\<lambda>x. 0)(D 0 := 1), sol_Pi = (\<lambda>j. 0)\<rparr>\<rparr>)
     [[1, 0]] [[1/2, 1/2]] 0 [] = Inr (0, [1], [0]) \<and>
   is_policy 1 [1] \<and> nominal_value [[1, 0]] [[1/2, 1/2]] [1] = 1/2"
proof -
  let ?sol = "\<lparr>sol_ObjVal = 0, sol_X = (\<lambda>x. 0 :: real)(D 0 := 1), sol_Pi = (\<lambda>j. 0 :: real)\<rparr>"
  let ?opt = "\<lambda>m :: grb_model. \<lparr>r_status = SUBOPTIMAL, r_solution = Some ?sol\<rparr>"
  have 1: "srect_linf_solve_gurobi ?opt [[1, 0]] [[1/2, 1/2]] 0 [] = Inr (0, [1], [0])"
    using srect_linf_solve_example[of ?opt 0 ?sol] by simp
  have n: "is_policy 1 [1]" "nominal_value [[1, 0]] [[1/2, 1/2]] [1] = 1/2"
    by (simp_all add: is_policy_def nominal_value_def nominal_return_def lessThan_Suc numeral_2_eq_2)
  from 1 n show ?thesis by (intro conjI)
qed

end
